theory Spec2Isabelle
  imports Complex_Main "HOL-Library.Stream"
begin

section \<open>Rebinning of spectra (becquerel/core/rebin.py)\<close>

text \<open>
  The embedding follows \<^verbatim>\<open>rebin.py\<close> function by function. Floating-point numbers
  (\<^verbatim>\<open>float64\<close>) are modelled as real numbers, so rounding error is absent and
  "equal within tolerance" becomes equality; the two infinities that the kernels append to
  the output edges are values of the type \<open>f8\<close>. A float operation that has no real
  result (a division by zero) is the outcome \<open>NonFinite\<close>. Counts of the listmode
  method (\<^verbatim>\<open>int64\<close>) are unbounded integers.
\<close>

subsection \<open>Errors, warnings and values\<close>

datatype rebin_message =
    NotND
  | ShapeIncompatible
  | NotMonotonic
  | InputAllSmaller
  | InputAllLarger
  | NegativeValues
  | AllLessThanOne

datatype value_message = InvalidMethod | BinsNotMonotonic | NegativeDimensions | CoreDimMismatch

datatype error =
    RebinError rebin_message
  | ValueError value_message
  | TypeError
  | IndexError
  | NonFinite

datatype warning = ZerosPaddedLeft | ZerosPaddedRight | PrecisionLoss

datatype f8 = NegInf | Finite real | PosInf

fun f8_less :: "f8 \<Rightarrow> f8 \<Rightarrow> bool" where
  "f8_less (Finite a) (Finite b) = (a < b)"
| "f8_less NegInf NegInf = False"
| "f8_less NegInf _ = True"
| "f8_less _ NegInf = False"
| "f8_less PosInf _ = False"
| "f8_less _ PosInf = True"

fun f8_le :: "f8 \<Rightarrow> f8 \<Rightarrow> bool" where
  "f8_le a b = (\<not> f8_less b a)"

text \<open>\<^verbatim>\<open>max(a, b)\<close> and \<^verbatim>\<open>min(a, b)\<close> with a finite first argument.\<close>

fun f8_max :: "real \<Rightarrow> f8 \<Rightarrow> f8" where
  "f8_max a (Finite b) = Finite (max a b)"
| "f8_max a NegInf = Finite a"
| "f8_max a PosInf = PosInf"

fun f8_min :: "real \<Rightarrow> f8 \<Rightarrow> f8" where
  "f8_min a (Finite b) = Finite (min a b)"
| "f8_min a NegInf = NegInf"
| "f8_min a PosInf = Finite a"

definition bindE :: "error + 'a \<Rightarrow> ('a \<Rightarrow> error + 'b) \<Rightarrow> error + 'b" where
  "bindE m f = (case m of Inl e \<Rightarrow> Inl e | Inr x \<Rightarrow> f x)"

text \<open>A float that enters real arithmetic must be finite.\<close>

fun finite_value :: "f8 \<Rightarrow> error + real" where
  "finite_value (Finite a) = Inr a"
| "finite_value _ = Inl NonFinite"

subsection \<open>Indexing\<close>

text \<open>
  \<^verbatim>\<open>xs[i]\<close>: a negative index counts from the end, an index outside the array
  raises \<^verbatim>\<open>IndexError\<close>.
\<close>

definition py_pos :: "nat \<Rightarrow> int \<Rightarrow> int" where
  "py_pos n i = (if i < 0 then i + int n else i)"

definition py_get :: "'a list \<Rightarrow> int \<Rightarrow> error + 'a" where
  "py_get xs i =
     (if 0 \<le> py_pos (length xs) i \<and> py_pos (length xs) i < int (length xs)
      then Inr (xs ! nat (py_pos (length xs) i))
      else Inl IndexError)"

text \<open>\<^verbatim>\<open>xs[i] += v\<close>\<close>

definition py_add :: "real list \<Rightarrow> int \<Rightarrow> real \<Rightarrow> error + real list" where
  "py_add xs i v =
     bindE (py_get xs i) (\<lambda>old. Inr (xs[nat (py_pos (length xs) i) := old + v]))"

text \<open>
  \<^verbatim>\<open>np.searchsorted(a, v)\<close> (side left) on a sorted array: the insertion index, which
  is the number of leading elements below \<open>v\<close>.
\<close>

definition searchsorted :: "f8 list \<Rightarrow> f8 \<Rightarrow> int" where
  "searchsorted a v = int (length (takeWhile (\<lambda>x. f8_less x v) a))"

subsection \<open>The interpolation kernel\<close>

definition linear_offset :: "real \<Rightarrow> real \<Rightarrow> real \<Rightarrow> real \<Rightarrow> error + real" where
  "linear_offset slope cts low high =
     (if high - low = 0 then Inl NonFinite
      else if \<bar>slope\<bar> < 1 / 10 ^ 6 then Inr (cts / (high - low))
      else Inr ((cts - slope / 2 * (high\<^sup>2 - low\<^sup>2)) / (high - low)))"

definition slope_integral :: "real \<Rightarrow> real \<Rightarrow> real \<Rightarrow> real" where
  "slope_integral x m b = m * x\<^sup>2 / 2 + b * x"

definition counts :: "real \<Rightarrow> real \<Rightarrow> real \<Rightarrow> real \<Rightarrow> real" where
  "counts m b x_low x_high = slope_integral x_high m b - slope_integral x_low m b"

text \<open>
  The inner loop \<^verbatim>\<open>for out_idx in range(out_idx, len(out_spectrum))\<close> of one input
  bin. The list holds the values the loop variable still has to take; the state is the
  current value of \<^verbatim>\<open>out_idx\<close> and the output spectrum. The \<^verbatim>\<open>break\<close> leaves
  \<^verbatim>\<open>out_idx\<close> one below the bin at which it happened.
\<close>

fun out_bins_loop ::
  "f8 list \<Rightarrow> real \<Rightarrow> real \<Rightarrow> real \<Rightarrow> real \<Rightarrow> int list \<Rightarrow> int \<times> real list
     \<Rightarrow> error + (int \<times> real list)" where
  "out_bins_loop out_edges in_left_edge in_right_edge slope offset [] st = Inr st"
| "out_bins_loop out_edges in_left_edge in_right_edge slope offset (j # js) (out_idx, out_spectrum) =
     bindE (py_get out_edges j) (\<lambda>out_left_edge.
     bindE (py_get out_edges (j + 1)) (\<lambda>out_right_edge.
       if f8_less (Finite in_right_edge) out_left_edge then Inr (j - 1, out_spectrum)
       else
         bindE (finite_value
                 (if j = 0 then Finite in_left_edge
                  else f8_max in_left_edge out_left_edge)) (\<lambda>low.
         bindE (finite_value
                 (if j = int (length out_spectrum) - 1 then Finite in_right_edge
                  else f8_min in_right_edge out_right_edge)) (\<lambda>high.
         bindE (py_add out_spectrum j (counts slope offset low high)) (\<lambda>out_spectrum'.
           out_bins_loop out_edges in_left_edge in_right_edge slope offset js
             (j, out_spectrum'))))))"

text \<open>The outer loop \<^verbatim>\<open>for in_idx in range(in_idx, len(in_spectrum))\<close>.\<close>

fun in_bins_loop ::
  "real list \<Rightarrow> real list \<Rightarrow> f8 list \<Rightarrow> real list \<Rightarrow> int list \<Rightarrow> int \<times> real list
     \<Rightarrow> error + (int \<times> real list)" where
  "in_bins_loop in_spectrum in_edges out_edges slopes [] st = Inr st"
| "in_bins_loop in_spectrum in_edges out_edges slopes (in_idx # rest) (out_idx, out_spectrum) =
     bindE (py_get in_edges in_idx) (\<lambda>in_left_edge.
     bindE (py_get in_edges (in_idx + 1)) (\<lambda>in_right_edge.
     bindE (py_get in_spectrum in_idx) (\<lambda>cts.
     bindE (py_get slopes in_idx) (\<lambda>slope.
     bindE (linear_offset slope cts in_left_edge in_right_edge) (\<lambda>offset.
     bindE (out_bins_loop out_edges in_left_edge in_right_edge slope offset
              [out_idx .. int (length out_spectrum) - 1] (out_idx, out_spectrum)) (\<lambda>st'.
       in_bins_loop in_spectrum in_edges out_edges slopes rest st'))))))"

text \<open>
  The kernel \<^verbatim>\<open>_rebin_interpolation_vectorized\<close> on one spectrum. Its signature
  \<^verbatim>\<open>(n),(N),(m),(n)->(m)\<close> makes the output as long as the output edges without the
  rightmost one, and demands slopes as long as the spectrum.
\<close>

definition rebin_interpolation_vectorized ::
  "real list \<Rightarrow> real list \<Rightarrow> real list \<Rightarrow> real list \<Rightarrow> error + real list" where
  "rebin_interpolation_vectorized in_spectrum in_edges out_edges_no_rightmost slopes =
     (if length slopes \<noteq> length in_spectrum then Inl (ValueError CoreDimMismatch)
      else
        let out_spectrum = replicate (length out_edges_no_rightmost) 0;
            out_edges = map Finite out_edges_no_rightmost @ [PosInf]
        in
        bindE (py_get out_edges 0) (\<lambda>out_first.
        let in_idx = max 0 (searchsorted (map Finite in_edges) out_first - 1) in
        bindE (py_add out_spectrum 0 (sum_list (take (nat in_idx) in_spectrum))) (\<lambda>out_spectrum.
        bindE (py_get in_edges 0) (\<lambda>in_first.
        let out_idx = max 0 (searchsorted out_edges (Finite in_first) - 1) in
        bindE (in_bins_loop in_spectrum in_edges out_edges slopes
                 [in_idx .. int (length in_spectrum) - 1] (out_idx, out_spectrum)) (\<lambda>st.
          Inr (snd st))))))"

subsection \<open>The listmode kernel\<close>

text \<open>
  \<^verbatim>\<open>np.random.rand\<close> reads a global generator. Its state is the stream of the draws
  still to come: drawing \<open>k\<close> numbers takes the first \<open>k\<close> and leaves the rest.

  \<^verbatim>\<open>np.histogram(a, bins)\<close> with an array of edges refuses edges that decrease, and
  otherwise counts through the cumulative histogram: for every edge the number of values
  below it (for the last edge: not above it), then the differences of neighbours.
\<close>

fun increasing_f8 :: "f8 list \<Rightarrow> bool" where
  "increasing_f8 (a # b # bs) = (f8_le a b \<and> increasing_f8 (b # bs))"
| "increasing_f8 _ = True"

fun diff_int :: "int list \<Rightarrow> int list" where
  "diff_int (a # b # bs) = (b - a) # diff_int (b # bs)"
| "diff_int _ = []"

definition count_below :: "real list \<Rightarrow> f8 \<Rightarrow> int" where
  "count_below a e = int (length (filter (\<lambda>v. f8_less (Finite v) e) a))"

definition count_upto :: "real list \<Rightarrow> f8 \<Rightarrow> int" where
  "count_upto a e = int (length (filter (\<lambda>v. f8_le (Finite v) e) a))"

definition histogram :: "real list \<Rightarrow> f8 list \<Rightarrow> error + int list" where
  "histogram a bins =
     (if \<not> increasing_f8 bins then Inl (ValueError BinsNotMonotonic)
      else Inr (diff_int (map (count_below a) (butlast bins) @ [count_upto a (last bins)])))"

text \<open>
  The loop that fills \<^verbatim>\<open>energies\<close>. The slices
  \<^verbatim>\<open>energies[energy_idx_start:energy_idx_stop]\<close> follow one another and cover the
  array, so the array is the concatenation of the slices. A negative count is refused by
  \<^verbatim>\<open>np.random.rand\<close>.
\<close>

fun fill_energies ::
  "int list \<Rightarrow> real list \<Rightarrow> int list \<Rightarrow> real list \<times> real stream
     \<Rightarrow> error + (real list \<times> real stream)" where
  "fill_energies in_spectrum in_edges [] st = Inr st"
| "fill_energies in_spectrum in_edges (in_idx # rest) (energies, rng) =
     bindE (py_get in_spectrum in_idx) (\<lambda>bin_counts.
     bindE (py_get in_edges in_idx) (\<lambda>in_left_edge.
     bindE (py_get in_edges (in_idx + 1)) (\<lambda>in_right_edge.
       if bin_counts < 0 then Inl (ValueError NegativeDimensions)
       else
         fill_energies in_spectrum in_edges rest
           (energies @
              map (\<lambda>u. in_left_edge + (in_right_edge - in_left_edge) * u)
                (stake (nat bin_counts) rng),
            sdrop (nat bin_counts) rng))))"

text \<open>
  The kernel \<^verbatim>\<open>_rebin_listmode_vectorized\<close> on one spectrum; it returns the output
  spectrum and the state of the generator. The histogram has one bin for every output edge
  but the rightmost; with no such edge its single bin is broadcast into an empty output.
\<close>

definition rebin_listmode_vectorized ::
  "int list \<Rightarrow> real list \<Rightarrow> real list \<Rightarrow> real stream \<Rightarrow> error + (int list \<times> real stream)" where
  "rebin_listmode_vectorized in_spectrum in_edges out_edges_no_rightmost rng =
     (let out_edges = [NegInf] @ map Finite (tl out_edges_no_rightmost) @ [PosInf] in
      if sum_list in_spectrum < 0 then Inl (ValueError NegativeDimensions)
      else
        bindE (fill_energies in_spectrum in_edges [0 .. int (length in_spectrum) - 1] ([], rng))
          (\<lambda>(energies, rng').
        bindE (histogram energies out_edges) (\<lambda>hist.
          Inr (if out_edges_no_rightmost = [] then [] else hist, rng'))))"

subsection \<open>Arrays\<close>

text \<open>
  A NumPy array is its shape and its elements in row-major order. A well-formed array has
  as many elements as its shape says.
\<close>

record 'a ndarray =
  shape :: "nat list"
  data :: "'a list"


definition ndim :: "'a ndarray \<Rightarrow> int" where
  "ndim a = int (length (shape a))"

definition array1 :: "'a list \<Rightarrow> 'a ndarray" where
  "array1 xs = \<lparr>shape = [length xs], data = xs\<rparr>"

definition array2 :: "nat \<Rightarrow> 'a list list \<Rightarrow> 'a ndarray" where
  "array2 cols xss = \<lparr>shape = [length xss, cols], data = concat xss\<rparr>"

text \<open>The rows along the last axis of an array of rank 1 or 2.\<close>

definition row :: "'a ndarray \<Rightarrow> nat \<Rightarrow> 'a list" where
  "row a i = take (last (shape a)) (drop (i * last (shape a)) (data a))"

definition rows :: "'a ndarray \<Rightarrow> 'a list list" where
  "rows a = (if length (shape a) = 1 then [data a] else map (row a) [0 ..< hd (shape a)])"

text \<open>The spectra come with integer or with floating-point elements.\<close>

datatype spectra = IntSpectra "int ndarray" | FloatSpectra "real ndarray"

fun spectra_shape :: "spectra \<Rightarrow> nat list" where
  "spectra_shape (IntSpectra a) = shape a"
| "spectra_shape (FloatSpectra a) = shape a"

fun spectra_values :: "spectra \<Rightarrow> real list" where
  "spectra_values (IntSpectra a) = map of_int (data a)"
| "spectra_values (FloatSpectra a) = data a"

text \<open>\<^verbatim>\<open>np.asarray(in_spectra, dtype=np.float64)\<close>\<close>

definition as_float :: "spectra \<Rightarrow> real ndarray" where
  "as_float s = \<lparr>shape = spectra_shape s, data = spectra_values s\<rparr>"

subsection \<open>The validator\<close>

text \<open>
  \<^verbatim>\<open>_check_ndim(arr, ndim)\<close> is called with a set of ranks and with a single rank. Its
  test is \<^verbatim>\<open>(arr.ndim != ndim) and (arr.ndim not in ndim)\<close>: with a set the first
  conjunct holds and the second decides; with a number the second conjunct is evaluated
  when the ranks differ, and \<^verbatim>\<open>in\<close> with a number on its right raises
  \<^verbatim>\<open>TypeError\<close>. The first argument is \<^verbatim>\<open>arr.shape\<close>.
\<close>

datatype ndim_spec = Scalar int | Iterable "int set"

fun check_ndim :: "nat list \<Rightarrow> ndim_spec \<Rightarrow> error + unit" where
  "check_ndim arr_shape (Scalar k) =
     (if int (length arr_shape) \<noteq> k then Inl TypeError else Inr ())"
| "check_ndim arr_shape (Iterable ks) =
     (if int (length arr_shape) \<notin> ks then Inl (RebinError NotND) else Inr ())"

text \<open>\<^verbatim>\<open>np.isclose(a, b)\<close> with the default tolerances.\<close>

definition isclose :: "real \<Rightarrow> real \<Rightarrow> bool" where
  "isclose a b = (\<bar>a - b\<bar> \<le> 1 / 10 ^ 8 + 1 / 10 ^ 5 * \<bar>b\<bar>)"

fun diff :: "real list \<Rightarrow> real list" where
  "diff (a # b # bs) = (b - a) # diff (b # bs)"
| "diff _ = []"

text \<open>
  \<^verbatim>\<open>_check_monotonic_increasing\<close>: the differences along the last axis. It is reached
  with arrays of rank 1 or 2 only.
\<close>

definition increasing_row :: "real list \<Rightarrow> bool" where
  "increasing_row r = list_all (\<lambda>tmp. tmp > 0 \<or> isclose tmp 0) (diff r)"

definition check_monotonic_increasing :: "real ndarray \<Rightarrow> error + unit" where
  "check_monotonic_increasing arr =
     (if \<not> list_all increasing_row (rows arr)
      then Inl (RebinError NotMonotonic) else Inr ())"

fun mapE :: "('a \<Rightarrow> error + 'b) \<Rightarrow> 'a list \<Rightarrow> error + 'b list" where
  "mapE f [] = Inr []"
| "mapE f (x # xs) = bindE (f x) (\<lambda>y. bindE (mapE f xs) (\<lambda>ys. Inr (y # ys)))"

text \<open>\<^verbatim>\<open>arr[..., i]\<close> for an array of rank 1 or 2: the element \<open>i\<close> of every row.\<close>

definition column :: "real ndarray \<Rightarrow> int \<Rightarrow> error + real list" where
  "column arr i = mapE (\<lambda>r. py_get r i) (rows arr)"

definition check_any_overlap :: "real ndarray \<Rightarrow> real ndarray \<Rightarrow> error + unit" where
  "check_any_overlap in_edges out_edges =
     bindE (column in_edges (- 1)) (\<lambda>in_last.
     bindE (py_get (data out_edges) 0) (\<lambda>out_first.
       if list_ex (\<lambda>x. x \<le> out_first) in_last then Inl (RebinError InputAllSmaller)
       else
         bindE (column in_edges 0) (\<lambda>in_first.
         bindE (py_get (data out_edges) (- 1)) (\<lambda>out_last.
           if list_ex (\<lambda>x. x \<ge> out_last) in_first then Inl (RebinError InputAllLarger)
           else Inr ()))))"

text \<open>\<^verbatim>\<open>_check_partial_overlap\<close> returns the warnings it emits.\<close>

definition check_partial_overlap :: "real ndarray \<Rightarrow> real ndarray \<Rightarrow> error + warning list" where
  "check_partial_overlap in_edges out_edges =
     bindE (column in_edges 0) (\<lambda>in_first.
     bindE (py_get (data out_edges) 0) (\<lambda>out_first.
     bindE (column in_edges (- 1)) (\<lambda>in_last.
     bindE (py_get (data out_edges) (- 1)) (\<lambda>out_last.
       Inr ((if list_ex (\<lambda>x. x > out_first) in_first then [ZerosPaddedLeft] else []) @
            (if list_ex (\<lambda>x. x < out_last) in_last then [ZerosPaddedRight] else []))))))"

text \<open>
  \<^verbatim>\<open>_check_shape\<close>; with \<^verbatim>\<open>edges=True\<close> the last axis of the second shape is
  reduced by one before the comparison, so the shapes are tuples of integers.
\<close>

fun edges_shape :: "nat list \<Rightarrow> error + int list" where
  "edges_shape [] = Inl IndexError"
| "edges_shape [a] = Inr [int a - 1]"
| "edges_shape [a, b] = Inr [int a, int b - 1]"
| "edges_shape (a # b # c # cs) = Inr [int a, int b - 1]"

definition check_shape :: "nat list \<Rightarrow> nat list \<Rightarrow> bool \<Rightarrow> error + unit" where
  "check_shape arr0_shape arr1_shape edges =
     bindE (if edges then edges_shape arr1_shape else Inr (map int arr1_shape)) (\<lambda>arr1_shape'.
       if map int arr0_shape \<noteq> arr1_shape' then Inl (RebinError ShapeIncompatible)
       else Inr ())"

subsection \<open>The broadcaster\<close>

definition broadcast :: "'a ndarray \<Rightarrow> nat list \<Rightarrow> 'a ndarray" where
  "broadcast arr shp =
     (if length (shape arr) = 1 \<and> length shp = 2
      then \<lparr>shape = [hd shp, hd (shape arr)], data = concat (replicate (hd shp) (data arr))\<rparr>
      else arr)"

subsection \<open>Applying a kernel to every spectrum\<close>

text \<open>
  \<^verbatim>\<open>xr.apply_ufunc\<close> hands NumPy arrays to the generalised ufunc, which runs the
  kernel on every row of the arrays with a leading axis and on the shared output edges
  without the rightmost one, and stacks the outputs.
\<close>

definition rebin_interpolation ::
  "real ndarray \<Rightarrow> real ndarray \<Rightarrow> real ndarray \<Rightarrow> real ndarray \<Rightarrow> error + real ndarray" where
  "rebin_interpolation in_spectra in_edges out_edges slopes =
     bindE (mapE (\<lambda>(s, e, sl).
                    rebin_interpolation_vectorized s e (butlast (data out_edges)) sl)
              (zip (rows in_spectra) (zip (rows in_edges) (rows slopes)))) (\<lambda>outs.
       Inr \<lparr>shape = butlast (shape in_spectra) @ [length (data out_edges) - 1],
            data = concat outs\<rparr>)"

fun listmode_rows ::
  "(int list \<times> real list) list \<Rightarrow> real list \<Rightarrow> real stream
     \<Rightarrow> error + (int list list \<times> real stream)" where
  "listmode_rows [] out_edges_no_rightmost rng = Inr ([], rng)"
| "listmode_rows ((s, e) # rest) out_edges_no_rightmost rng =
     bindE (rebin_listmode_vectorized s e out_edges_no_rightmost rng) (\<lambda>(out, rng').
     bindE (listmode_rows rest out_edges_no_rightmost rng') (\<lambda>(outs, rng'').
       Inr (out # outs, rng'')))"

definition rebin_listmode ::
  "int ndarray \<Rightarrow> real ndarray \<Rightarrow> real ndarray \<Rightarrow> real stream \<Rightarrow> error + int ndarray" where
  "rebin_listmode in_spectra in_edges out_edges rng =
     bindE (listmode_rows (zip (rows in_spectra) (rows in_edges)) (butlast (data out_edges)) rng)
       (\<lambda>(outs, rng').
       Inr \<lparr>shape = butlast (shape in_spectra) @ [length (data out_edges) - 1],
            data = concat outs\<rparr>)"

subsection \<open>The dispatcher\<close>

text \<open>\<^verbatim>\<open>str.lower\<close> on the ASCII letters.\<close>

definition lower_char :: "char \<Rightarrow> char" where
  "lower_char c =
     (if 65 \<le> (of_char c :: nat) \<and> (of_char c :: nat) \<le> 90
      then char_of ((of_char c :: nat) + 32) else c)"

definition lower :: "string \<Rightarrow> string" where
  "lower s = map lower_char s"

text \<open>\<^verbatim>\<open>np.round\<close> rounds a half to the even neighbour.\<close>

definition np_round :: "real \<Rightarrow> int" where
  "np_round x =
     (if x - of_int \<lfloor>x\<rfloor> < 1 / 2 then \<lfloor>x\<rfloor>
      else if x - of_int \<lfloor>x\<rfloor> > 1 / 2 then \<lfloor>x\<rfloor> + 1
      else if even \<lfloor>x\<rfloor> then \<lfloor>x\<rfloor> else \<lfloor>x\<rfloor> + 1)"

definition allclose :: "real list \<Rightarrow> real list \<Rightarrow> bool" where
  "allclose as bs = list_all2 isclose as bs"

text \<open>
  The first block of \<^verbatim>\<open>rebin\<close>: the checks and the cast of the spectra for the
  listmode method, the cast to floats for every other method. It returns the warning it
  emits with the spectra.
\<close>

definition cast_spectra :: "string \<Rightarrow> spectra \<Rightarrow> error + (warning list \<times> spectra)" where
  "cast_spectra method in_spectra =
     (if method = ''listmode'' then
        if list_ex (\<lambda>x. x < 0) (spectra_values in_spectra)
        then Inl (RebinError NegativeValues)
        else if list_all (\<lambda>x. x < 1) (spectra_values in_spectra)
        then Inl (RebinError AllLessThanOne)
        else
          (case in_spectra of
             FloatSpectra a \<Rightarrow>
               Inr (if allclose (data a) (map (\<lambda>x. of_int (np_round x)) (data a)) then []
                    else [PrecisionLoss],
                    IntSpectra \<lparr>shape = shape a, data = map np_round (data a)\<rparr>)
           | IntSpectra a \<Rightarrow> Inr ([], in_spectra))
      else Inr ([], FloatSpectra (as_float in_spectra)))"

definition zeros_like :: "spectra \<Rightarrow> real ndarray" where
  "zeros_like s = \<lparr>shape = spectra_shape s, data = replicate (length (spectra_values s)) 0\<rparr>"

text \<open>The checks of \<^verbatim>\<open>rebin\<close> in their order; they return the warnings.\<close>

definition validate ::
  "nat list \<Rightarrow> real ndarray \<Rightarrow> real ndarray \<Rightarrow> real ndarray \<Rightarrow> bool \<Rightarrow> error + warning list" where
  "validate in_shape in_edges out_edges slopes zero_pad_warnings =
     bindE (check_ndim in_shape (Iterable {1, 2})) (\<lambda>_.
     bindE (check_ndim (shape in_edges) (Iterable {1, 2})) (\<lambda>_.
     bindE (check_ndim (shape slopes) (Iterable {1, 2})) (\<lambda>_.
     bindE (check_ndim (shape out_edges) (Scalar 1)) (\<lambda>_.
     bindE (check_shape in_shape (shape in_edges) True) (\<lambda>_.
     bindE (check_shape in_shape (shape slopes) False) (\<lambda>_.
     bindE (check_monotonic_increasing in_edges) (\<lambda>_.
     bindE (check_monotonic_increasing out_edges) (\<lambda>_.
     bindE (check_any_overlap in_edges out_edges) (\<lambda>_.
       if zero_pad_warnings then check_partial_overlap in_edges out_edges
       else Inr [])))))))))"

text \<open>
  \<^verbatim>\<open>rebin\<close> returns the warnings emitted and either the error raised or the rebinned
  spectra. The last argument is the state of the random generator at the call.
\<close>

definition rebin ::
  "spectra \<Rightarrow> real ndarray \<Rightarrow> real ndarray \<Rightarrow> string \<Rightarrow> real ndarray option \<Rightarrow> bool
     \<Rightarrow> real stream \<Rightarrow> warning list \<times> (error + spectra)" where
  "rebin in_spectra0 in_edges0 out_edges method0 slopes0 zero_pad_warnings rng =
     (let method = lower method0 in
      case cast_spectra method in_spectra0 of
        Inl e \<Rightarrow> ([], Inl e)
      | Inr (w1, in_spectra) \<Rightarrow>
          let slopes1 = (case slopes0 of None \<Rightarrow> zeros_like in_spectra | Some s \<Rightarrow> s);
              in_edges = broadcast in_edges0 (spectra_shape in_spectra);
              slopes = broadcast slopes1 (spectra_shape in_spectra)
          in
          (case validate (spectra_shape in_spectra) in_edges out_edges slopes
                  zero_pad_warnings of
             Inl e \<Rightarrow> (w1, Inl e)
           | Inr w2 \<Rightarrow>
               (w1 @ w2,
                if method = ''interpolation'' then
                  bindE (rebin_interpolation (as_float in_spectra) in_edges out_edges slopes)
                    (\<lambda>out. Inr (FloatSpectra out))
                else if method = ''listmode'' then
                  (case in_spectra of
                     IntSpectra a \<Rightarrow>
                       bindE (rebin_listmode a in_edges out_edges rng)
                         (\<lambda>out. Inr (IntSpectra out))
                   | FloatSpectra a \<Rightarrow> Inl TypeError)
                else Inl (ValueError InvalidMethod))))"

text \<open>The listmode preconditions on the spectra: no negative value, some value at least one.\<close>

definition listmode_input :: "spectra \<Rightarrow> bool" where
  "listmode_input S =
     (\<not> list_ex (\<lambda>x. x < 0) (spectra_values S) \<and> \<not> list_all (\<lambda>x. x < 1) (spectra_values S))"


section \<open>Properties\<close>

subsection \<open>Basic facts\<close>

lemma bindE_Inr [simp]: "bindE (Inr x) f = f x"
  by (simp add: bindE_def)

lemma bindE_Inl [simp]: "bindE (Inl e) f = Inl e"
  by (simp add: bindE_def)


lemma shape_array1 [simp]: "shape (array1 xs) = [length xs]"
  by (simp add: array1_def)

lemma data_array1 [simp]: "data (array1 xs) = xs"
  by (simp add: array1_def)

lemma rows_array1 [simp]: "rows (array1 xs) = [xs]"
  by (simp add: rows_def)

lemma as_float_array1: "as_float (FloatSpectra (array1 sp)) = array1 sp"
  by (simp add: as_float_def array1_def)

lemma broadcast_rank1 [simp]: "length shp = 1 \<Longrightarrow> broadcast a shp = a"
  by (simp add: broadcast_def)

lemma py_get_first: "xs \<noteq> [] \<Longrightarrow> py_get xs 0 = Inr (hd xs)"
  by (cases xs) (simp_all add: py_get_def py_pos_def)

lemma py_get_last: "xs \<noteq> [] \<Longrightarrow> py_get xs (- 1) = Inr (last xs)"
  by (simp add: py_get_def py_pos_def last_conv_nth nat_diff_distrib' Suc_leI)

lemma check_monotonic_array1:
  "check_monotonic_increasing (array1 es) =
     (if increasing_row es then Inr () else Inl (RebinError NotMonotonic))"
  by (simp add: check_monotonic_increasing_def)

lemma check_any_overlap_array1:
  "es \<noteq> [] \<Longrightarrow> os \<noteq> [] \<Longrightarrow>
   check_any_overlap (array1 es) (array1 os) =
     (if last es \<le> hd os then Inl (RebinError InputAllSmaller)
      else if hd es \<ge> last os then Inl (RebinError InputAllLarger) else Inr ())"
  by (simp add: check_any_overlap_def column_def py_get_first py_get_last)

lemma spectra_shape_cast:
  "cast_spectra method S = Inr (w, S') \<Longrightarrow> spectra_shape S' = spectra_shape S"
  by (cases S) (auto simp: cast_spectra_def as_float_def split: if_splits)

lemma validate_rank1:
  assumes "length es = n + 1" and "shape sl = [n]" and "os \<noteq> []"
    and "increasing_row es" and "increasing_row os"
  shows "validate [n] (array1 es) (array1 os) sl z =
     (if last es \<le> hd os then Inl (RebinError InputAllSmaller)
      else if hd es \<ge> last os then Inl (RebinError InputAllLarger)
      else if z then check_partial_overlap (array1 es) (array1 os) else Inr [])"
proof -
  have es: "es \<noteq> []"
    using assms(1) by auto
  show ?thesis
    using assms
    by (simp add: validate_def check_shape_def check_monotonic_array1
        check_any_overlap_array1 es)
qed

lemma cast_spectra_succeeds:
  "lower method \<noteq> ''listmode'' \<or> listmode_input S \<Longrightarrow>
   \<exists>w S'. cast_spectra (lower method) S = Inr (w, S') \<and> spectra_shape S' = spectra_shape S"
  by (cases S) (auto simp: cast_spectra_def listmode_input_def as_float_def)

subsection \<open>The errors a call can end in\<close>

lemma bindE_eq_Inl: "bindE m f = Inl e \<longleftrightarrow> m = Inl e \<or> (\<exists>x. m = Inr x \<and> f x = Inl e)"
  by (cases m) simp_all

lemma py_get_error: "py_get xs i = Inl e \<Longrightarrow> e = IndexError"
  by (simp add: py_get_def split: if_splits)
lemma py_add_error: "py_add xs i v = Inl e \<Longrightarrow> e = IndexError"
  by (auto simp add: py_add_def bindE_eq_Inl dest: py_get_error)
lemma finite_value_error: "finite_value x = Inl e \<Longrightarrow> e = NonFinite"
  by (cases x) simp_all
lemma linear_offset_error: "linear_offset s c l h = Inl e \<Longrightarrow> e = NonFinite"
  by (simp add: linear_offset_def split: if_splits)

lemma out_bins_loop_error:
  "out_bins_loop oe l r s off js st = Inl e \<Longrightarrow> e = IndexError \<or> e = NonFinite"
proof (induction js arbitrary: st)
  case Nil
  then show ?case by simp
next
  case (Cons j js)
  obtain k out where st: "st = (k, out)" by (cases st)
  from Cons.prems show ?case
    unfolding st out_bins_loop.simps
    by (auto simp: bindE_eq_Inl dest: py_get_error py_add_error finite_value_error Cons.IH split: if_splits)
qed

lemma in_bins_loop_error:
  "in_bins_loop sp es oe sl is st = Inl e \<Longrightarrow> e = IndexError \<or> e = NonFinite"
proof (induction "is" arbitrary: st)
  case Nil
  then show ?case by simp
next
  case (Cons i "is")
  obtain k out where st: "st = (k, out)" by (cases st)
  from Cons.prems show ?case
    unfolding st in_bins_loop.simps
    by (auto simp: bindE_eq_Inl dest: py_get_error linear_offset_error out_bins_loop_error Cons.IH)
qed

lemma interpolation_vectorized_error:
  "rebin_interpolation_vectorized sp es oe sl = Inl e \<Longrightarrow>
     e = IndexError \<or> e = NonFinite \<or> e = ValueError CoreDimMismatch"
  unfolding rebin_interpolation_vectorized_def Let_def
  by (auto simp: bindE_eq_Inl dest: py_get_error py_add_error in_bins_loop_error split: if_splits)

lemma mapE_error: "mapE f xs = Inl e \<Longrightarrow> \<exists>x \<in> set xs. f x = Inl e"
  by (induction xs) (auto simp: bindE_eq_Inl)

lemma rebin_interpolation_error:
  "rebin_interpolation S E O' sl = Inl e \<Longrightarrow>
     e = IndexError \<or> e = NonFinite \<or> e = ValueError CoreDimMismatch"
  unfolding rebin_interpolation_def
  by (auto simp: bindE_eq_Inl dest!: mapE_error dest: interpolation_vectorized_error)

lemma fill_energies_error:
  "fill_energies sp es is st = Inl e \<Longrightarrow>
     e = IndexError \<or> e = ValueError NegativeDimensions \<or> e = ValueError BinsNotMonotonic"
proof (induction "is" arbitrary: st)
  case Nil
  then show ?case by simp
next
  case (Cons i "is")
  obtain en rng where st: "st = (en, rng)" by (cases st)
  from Cons.prems show ?case
    unfolding st fill_energies.simps
    by (auto simp: bindE_eq_Inl dest: py_get_error Cons.IH split: if_splits)
qed

lemma listmode_vectorized_error:
  "rebin_listmode_vectorized sp es oe rng = Inl e \<Longrightarrow>
     e = IndexError \<or> e = ValueError NegativeDimensions \<or> e = ValueError BinsNotMonotonic"
  unfolding rebin_listmode_vectorized_def Let_def histogram_def
  by (auto simp: bindE_eq_Inl dest: fill_energies_error split: if_splits)

lemma listmode_rows_error:
  "listmode_rows rs oe rng = Inl e \<Longrightarrow>
     e = IndexError \<or> e = ValueError NegativeDimensions \<or> e = ValueError BinsNotMonotonic"
proof (induction rs arbitrary: rng)
  case Nil
  then show ?case by simp
next
  case (Cons r rs)
  obtain s es where r: "r = (s, es)" by (cases r)
  from Cons.prems show ?case
    unfolding r listmode_rows.simps
    by (auto simp: bindE_eq_Inl dest: listmode_vectorized_error Cons.IH)
qed

lemma rebin_listmode_error:
  "rebin_listmode S E O' rng = Inl e \<Longrightarrow>
     e = IndexError \<or> e = ValueError NegativeDimensions \<or> e = ValueError BinsNotMonotonic"
  unfolding rebin_listmode_def
  by (auto simp: bindE_eq_Inl dest: listmode_rows_error)

lemma lower_char_idem: "lower_char (lower_char c) = lower_char c"
  by (simp add: lower_char_def)
lemma lower_idem: "lower (lower s) = lower s"
  by (simp add: lower_def lower_char_idem)

lemma rebin_lower: "rebin S E O' method sl z rng = rebin S E O' (lower method) sl z rng"
  by (simp add: rebin_def lower_idem)

lemma column_error: "column a i = Inl e \<Longrightarrow> e = IndexError"
  unfolding column_def by (auto dest!: mapE_error dest: py_get_error)

lemma check_ndim_error: "check_ndim shp k = Inl e \<Longrightarrow> e = TypeError \<or> e = RebinError NotND"
  by (cases k) (auto split: if_splits)

lemma edges_shape_error: "edges_shape shp = Inl e \<Longrightarrow> e = IndexError"
  by (cases shp rule: edges_shape.cases) auto

lemma check_shape_error:
  "check_shape a b c = Inl e \<Longrightarrow> e = IndexError \<or> e = RebinError ShapeIncompatible"
  unfolding check_shape_def
  by (auto simp: bindE_eq_Inl dest: edges_shape_error split: if_splits)

lemma check_monotonic_error:
  "check_monotonic_increasing a = Inl e \<Longrightarrow> e = RebinError NotMonotonic"
  unfolding check_monotonic_increasing_def by (auto split: if_splits)

lemma check_any_overlap_error:
  "check_any_overlap a b = Inl e \<Longrightarrow>
     e = IndexError \<or> e = RebinError InputAllSmaller \<or> e = RebinError InputAllLarger"
  unfolding check_any_overlap_def
  by (auto simp: bindE_eq_Inl dest: column_error py_get_error split: if_splits)

lemma check_partial_overlap_error: "check_partial_overlap a b = Inl e \<Longrightarrow> e = IndexError"
  unfolding check_partial_overlap_def
  by (auto simp: bindE_eq_Inl dest: column_error py_get_error)

lemma validate_error:
  "validate shp E O' sl z = Inl e \<Longrightarrow> e = TypeError \<or> e = IndexError \<or> (\<exists>m. e = RebinError m)"
  unfolding validate_def
  by (auto simp: bindE_eq_Inl dest: check_ndim_error check_shape_error check_monotonic_error
      check_any_overlap_error check_partial_overlap_error split: if_splits)

lemma validate_error_not_invalid_method: "validate shp E O' sl z \<noteq> Inl (ValueError InvalidMethod)"
  using validate_error by blast


subsection \<open>The monotonicity check\<close>

lemma isclose_zero: "isclose t 0 \<longleftrightarrow> \<bar>t\<bar> \<le> 1 / 10 ^ 8"
  by (simp add: isclose_def)

lemma increasing_row_iff:
  "increasing_row es \<longleftrightarrow> (\<forall>i. Suc i < length es \<longrightarrow> es ! i - 1 / 10 ^ 8 \<le> es ! Suc i)"
proof (induction es rule: diff.induct)
  case (1 a b bs)
  have step: "(b - a > 0 \<or> isclose (b - a) 0) \<longleftrightarrow> a - 1 / 10 ^ 8 \<le> b"
  proof -
    define c :: real where "c = 1 / 10 ^ 8"
    have c: "0 < c" by (simp add: c_def)
    have "isclose (b - a) 0 \<longleftrightarrow> \<bar>b - a\<bar> \<le> c"
      by (simp only: isclose_def c_def abs_zero mult_zero_right add_0_right diff_zero)
    moreover have "(b - a > 0 \<or> \<bar>b - a\<bar> \<le> c) \<longleftrightarrow> a - c \<le> b"
      using c by linarith
    ultimately show ?thesis by (simp only: c_def)
  qed
  have "(\<forall>i. Suc i < length (a # b # bs) \<longrightarrow> (a # b # bs) ! i - 1 / 10 ^ 8 \<le> (a # b # bs) ! Suc i)
     \<longleftrightarrow> a - 1 / 10 ^ 8 \<le> b \<and> (\<forall>i. Suc i < length (b # bs) \<longrightarrow> (b # bs) ! i - 1 / 10 ^ 8 \<le> (b # bs) ! Suc i)"
    (is "?L \<longleftrightarrow> ?A \<and> ?R")
  proof
    assume L: ?L
    have ?A using L [rule_format, of 0] by simp
    moreover have ?R
    proof (intro allI impI)
      fix i assume "Suc i < length (b # bs)"
      then show "(b # bs) ! i - 1 / 10 ^ 8 \<le> (b # bs) ! Suc i"
        using L [rule_format, of "Suc i"] by simp
    qed
    ultimately show "?A \<and> ?R" ..
  next
    assume AR: "?A \<and> ?R"
    show ?L
    proof (intro allI impI)
      fix i assume i: "Suc i < length (a # b # bs)"
      show "(a # b # bs) ! i - 1 / 10 ^ 8 \<le> (a # b # bs) ! Suc i"
      proof (cases i)
        case 0
        then show ?thesis using AR by simp
      next
        case (Suc k)
        then show ?thesis using AR i by simp
      qed
    qed
  qed
  with 1 step show ?case
    by (simp add: increasing_row_def)
qed (simp_all add: increasing_row_def)

lemma strictly_increasing_row: "sorted_wrt (<) es \<Longrightarrow> increasing_row es"
  unfolding increasing_row_iff
proof (intro allI impI)
  fix i assume s: "sorted_wrt (<) es" and i: "Suc i < length es"
  have "es ! i < es ! Suc i"
    using sorted_wrt_nth_less [OF s, of i "Suc i"] i by simp
  then show "es ! i - 1 / 10 ^ 8 \<le> es ! Suc i" by simp
qed

subsection \<open>Rank of the output edges\<close>

text \<open>
  Claim C3 says that output edges of a rank other than 1 fail with the shape error. On a
  spectrum \<open>[1, 2]\<close> with edges \<open>[0, 1, 2]\<close> and the 2-D output edges \<open>[[0, 1, 2]]\<close> the
  rank test of \<^verbatim>\<open>_check_ndim\<close> is evaluated with the number 1 on the right of
  \<^verbatim>\<open>not in\<close>, and the call ends in \<^verbatim>\<open>TypeError\<close>, not in a \<^verbatim>\<open>RebinError\<close>.
\<close>

theorem rebin_out_edges_rank2_type_error:
  "rebin (FloatSpectra (array1 [1, 2])) (array1 [0, 1, 2]) (array2 3 [[0, 1, 2]])
     ''interpolation'' None True rng = ([], Inl TypeError)"
  by code_simp

subsection \<open>Ranges that do not overlap\<close>

text \<open>
  Claim C5: \<^verbatim>\<open>rebin\<close> fails with the no-overlap error whenever the input edge range
  lies entirely to the left or entirely to the right of the output edge range. For a
  spectrum of \<open>n\<close> bins with \<open>n + 1\<close> edges that pass the checks before the overlap check
  (for the listmode method its conditions on the counts, consistent slopes, output edges
  that are not empty, edges that increase), the call raises \<^verbatim>\<open>RebinError\<close> with the
  message that the input edges are all smaller, or all larger, than the output edges, for
  every method string.
\<close>

theorem rebin_no_overlap:
  assumes "lower method \<noteq> ''listmode'' \<or> listmode_input S"
    and "spectra_shape S = [n]" and "length es = n + 1"
    and "slopes = None \<or> (\<exists>sl. slopes = Some sl \<and> shape sl = [n])"
    and "os \<noteq> []" and "increasing_row es" and "increasing_row os"
    and "last es \<le> hd os \<or> last os \<le> hd es"
  shows "snd (rebin S (array1 es) (array1 os) method slopes z rng) =
     Inl (RebinError (if last es \<le> hd os then InputAllSmaller else InputAllLarger))"
proof -
  obtain w S' where c: "cast_spectra (lower method) S = Inr (w, S')"
    and s: "spectra_shape S' = [n]"
    using cast_spectra_succeeds [OF assms(1)] assms(2) by auto
  define sl where "sl = (case slopes of None \<Rightarrow> zeros_like S' | Some a \<Rightarrow> a)"
  have sl: "shape sl = [n]"
    using assms(4) s by (auto simp: sl_def zeros_like_def)
  have "validate [n] (array1 es) (array1 os) sl z =
      Inl (RebinError (if last es \<le> hd os then InputAllSmaller else InputAllLarger))"
    using assms(8) by (auto simp add: validate_rank1 [OF assms(3) sl assms(5-7)])
  then show ?thesis
    by (simp add: rebin_def c s sl sl_def [symmetric])
qed

theorem rebin_no_overlap_witness:
  "lower ''interpolation'' \<noteq> ''listmode'' \<and> increasing_row [0, 10] \<and> increasing_row [20, 30] \<and>
   last [0, 10 :: real] \<le> hd [20, 30] \<and>
   snd (rebin (FloatSpectra (array1 [5])) (array1 [0, 10]) (array1 [20, 30])
          ''interpolation'' None True (sconst 0)) = Inl (RebinError InputAllSmaller)"
  using rebin_no_overlap [of "''interpolation''" "FloatSpectra (array1 [5])" 1 "[0, 10]" None
      "[20, 30]" True "sconst 0"]
  by (simp add: lower_def lower_char_def increasing_row_def)

subsection \<open>Zero padding on partial overlap\<close>

text \<open>
  Claim C6: with the interpolation method, input edges \<open>[0, 1, 2, 3]\<close>, spectrum
  \<open>[10, 10, 10]\<close> and output edges \<open>[0, 1, 2, 3, 4]\<close>, \<^verbatim>\<open>rebin\<close> returns four bins, the
  last of them 0, and warns that zeros are padded on the right side; without
  \<^verbatim>\<open>zero_pad_warnings\<close> the result is the same and there is no warning.
\<close>

theorem rebin_partial_overlap_zero_padding:
  "rebin (FloatSpectra (array1 [10, 10, 10])) (array1 [0, 1, 2, 3]) (array1 [0, 1, 2, 3, 4])
     ''interpolation'' None True rng =
     ([ZerosPaddedRight], Inr (FloatSpectra (array1 [10, 10, 10, 0]))) \<and>
   rebin (FloatSpectra (array1 [10, 10, 10])) (array1 [0, 1, 2, 3]) (array1 [0, 1, 2, 3, 4])
     ''interpolation'' None False rng =
     ([], Inr (FloatSpectra (array1 [10, 10, 10, 0])))"
  by code_simp

subsection \<open>Negative counts and the listmode method\<close>

text \<open>
  Claim C8: for every spectrum with at least one negative value, \<^verbatim>\<open>rebin\<close> with the
  listmode method raises the negative-counts error and produces no result. The error is
  raised by the first check of the call, whatever the edges are and before any warning, so
  no kernel has run. In particular the spectrum \<open>[-1, 5]\<close> is refused.
\<close>

theorem rebin_listmode_negative_counts:
  "(lower method = ''listmode'' \<and> (\<exists>x \<in> set (spectra_values S). x < 0) \<longrightarrow>
      rebin S in_edges out_edges method slopes z rng = ([], Inl (RebinError NegativeValues))) \<and>
   rebin (IntSpectra (array1 [- 1, 5])) in_edges out_edges ''listmode'' slopes z rng =
     ([], Inl (RebinError NegativeValues))"
  by (auto simp add: rebin_def cast_spectra_def list_ex_iff lower_def lower_char_def)

theorem rebin_listmode_negative_counts_witness:
  "lower ''listmode'' = ''listmode'' \<and> (\<exists>x \<in> set (spectra_values (FloatSpectra (array1 [3, - 2]))). x < 0) \<and>
   rebin (FloatSpectra (array1 [3, - 2])) (array1 [0, 1, 2]) (array1 [0, 1, 2]) ''listmode'' None True
     (sconst 0) = ([], Inl (RebinError NegativeValues))"
  using rebin_listmode_negative_counts [of "''listmode''" "FloatSpectra (array1 [3, - 2])"
      "array1 [0, 1, 2]" "array1 [0, 1, 2]" None True "sconst 0"]
  by (simp add: lower_def lower_char_def)

subsection \<open>Edges that do not increase\<close>

text \<open>
  Claim C4 says that every edge array that is not strictly increasing is refused, equal
  neighbouring edges included. The check accepts a difference that is positive or close to
  zero, so output edges \<open>[0, 1, 1, 2]\<close> are accepted and the spectrum is rebinned onto
  them, the empty bin receiving nothing.
\<close>

lemma equal_edges_accepted:
  "rebin (FloatSpectra (array1 [5])) (array1 [0, 2]) (array1 [0, 1, 1, 2]) ''interpolation''
     None True rng = ([], Inr (FloatSpectra (array1 [5 / 2, 0, 5 / 2])))"
  by code_simp

theorem rebin_equal_edges_counterexample:
  "rebin (FloatSpectra (array1 [5])) (array1 [0, 2]) (array1 [0, 1, 1, 2]) ''interpolation''
     None True (sconst 0) = ([], Inr (FloatSpectra (array1 [5 / 2, 0, 5 / 2])))"
  by (rule equal_edges_accepted)

text \<open>
  Claim C4, amended: input or output edges with a neighbouring pair that decreases by more
  than the tolerance \<open>10\<^sup>-\<^sup>8\<close> of the check, as in \<open>[0, 5, 3, 10]\<close>, make \<^verbatim>\<open>rebin\<close>
  raise the \<^verbatim>\<open>RebinError\<close> for edges that are not monotonically increasing, for a
  spectrum of \<open>n\<close> bins with \<open>n + 1\<close> edges that passes the checks made before.
\<close>

theorem rebin_non_monotonic:
  assumes "lower method \<noteq> ''listmode'' \<or> listmode_input S"
    and "spectra_shape S = [n]" and "length es = n + 1"
    and "slopes = None \<or> (\<exists>sl. slopes = Some sl \<and> shape sl = [n])"
    and "(\<exists>i. Suc i < length es \<and> es ! Suc i < es ! i - 1 / 10 ^ 8) \<or>
         (\<exists>i. Suc i < length os \<and> os ! Suc i < os ! i - 1 / 10 ^ 8)"
  shows "snd (rebin S (array1 es) (array1 os) method slopes z rng) =
     Inl (RebinError NotMonotonic)"
proof -
  obtain w S' where c: "cast_spectra (lower method) S = Inr (w, S')"
    and s: "spectra_shape S' = [n]"
    using cast_spectra_succeeds [OF assms(1)] assms(2) by auto
  define sl where "sl = (case slopes of None \<Rightarrow> zeros_like S' | Some a \<Rightarrow> a)"
  have sl: "shape sl = [n]"
    using assms(4) s by (auto simp: sl_def zeros_like_def)
  have "\<not> increasing_row es \<or> \<not> increasing_row os"
    using assms(5) unfolding increasing_row_iff by (meson not_le)
  then have "validate [n] (array1 es) (array1 os) sl z = Inl (RebinError NotMonotonic)"
    using assms(3) sl by (auto simp add: validate_def check_shape_def check_monotonic_array1)
  then show ?thesis
    by (simp add: rebin_def c s sl sl_def [symmetric])
qed

theorem rebin_non_monotonic_witness:
  "Suc 1 < length [0, 5, 3, 10 :: real] \<and> [0, 5, 3, 10 :: real] ! Suc 1 < [0, 5, 3, 10] ! 1 - 1 / 10 ^ 8 \<and>
   snd (rebin (FloatSpectra (array1 [1, 2, 3])) (array1 [0, 5, 3, 10]) (array1 [0, 1])
          ''interpolation'' None True (sconst 0)) = Inl (RebinError NotMonotonic) \<and>
   snd (rebin (FloatSpectra (array1 [5])) (array1 [0, 2]) (array1 [0, 5, 3, 10])
          ''interpolation'' None True (sconst 0)) = Inl (RebinError NotMonotonic)"
proof -
  have i: "Suc 1 < length [0, 5, 3, 10 :: real] \<and>
      [0, 5, 3, 10 :: real] ! Suc 1 < [0, 5, 3, 10] ! 1 - 1 / 10 ^ 8"
    by simp
  have m: "lower ''interpolation'' \<noteq> ''listmode''"
    by (simp add: lower_def lower_char_def)
  have "snd (rebin (FloatSpectra (array1 [1, 2, 3])) (array1 [0, 5, 3, 10]) (array1 [0, 1])
          ''interpolation'' None True (sconst 0)) = Inl (RebinError NotMonotonic)"
    by (rule rebin_non_monotonic [where n = 3], rule disjI1, rule m, simp, simp, simp,
        rule disjI1, rule exI [of _ 1], rule i)
  moreover have "snd (rebin (FloatSpectra (array1 [5])) (array1 [0, 2]) (array1 [0, 5, 3, 10])
          ''interpolation'' None True (sconst 0)) = Inl (RebinError NotMonotonic)"
    by (rule rebin_non_monotonic [where n = 1], rule disjI1, rule m, simp, simp, simp,
        rule disjI2, rule exI [of _ 1], rule i)
  ultimately show ?thesis
    using i by (intro conjI) (simp_all only:)
qed

subsection \<open>The method selector\<close>

lemma rebin_known_method:
  assumes "lower method = ''interpolation'' \<or> lower method = ''listmode''"
  shows "snd (rebin S E O' method sl z rng) \<noteq> Inl (ValueError InvalidMethod)"
proof
  assume a: "snd (rebin S E O' method sl z rng) = Inl (ValueError InvalidMethod)"
  show False
  proof (cases "cast_spectra (lower method) S")
    case (Inl e)
    then show False
      using a by (auto simp: rebin_def cast_spectra_def split: if_splits spectra.splits)
  next
    case (Inr p)
    obtain w S' where p: "p = (w, S')"
      by (cases p)
    show False
      using a assms Inr validate_error_not_invalid_method
      by (auto simp: rebin_def p Let_def bindE_eq_Inl split: sum.splits spectra.splits
          dest: rebin_interpolation_error rebin_listmode_error)
  qed
qed

lemma rebin_dispatch_interpolation:
  assumes m: "lower method = ''interpolation''"
    and v: "validate (spectra_shape S) (broadcast E (spectra_shape S)) O'
        (broadcast (case sl of None \<Rightarrow> zeros_like S | Some s \<Rightarrow> s) (spectra_shape S)) z = Inr w"
  shows "rebin S E O' method sl z rng =
     (w, bindE (rebin_interpolation (as_float S) (broadcast E (spectra_shape S)) O'
                  (broadcast (case sl of None \<Rightarrow> zeros_like S | Some s \<Rightarrow> s) (spectra_shape S)))
           (\<lambda>out. Inr (FloatSpectra out)))"
proof -
  have c: "cast_spectra ''interpolation'' S = Inr ([], FloatSpectra (as_float S))"
    by (simp add: cast_spectra_def)
  have sh: "shape (as_float S) = spectra_shape S"
    by (simp add: as_float_def)
  have af: "as_float (FloatSpectra (as_float S)) = as_float S"
    by (simp add: as_float_def)
  have zl: "(case sl of None \<Rightarrow> zeros_like (FloatSpectra (as_float S)) | Some s \<Rightarrow> s) =
      (case sl of None \<Rightarrow> zeros_like S | Some s \<Rightarrow> s)"
    by (cases sl) (simp_all add: zeros_like_def as_float_def)
  show ?thesis
    using v by (simp add: rebin_def Let_def m c sh af zl)
qed

lemma rebin_dispatch_listmode:
  assumes m: "lower method = ''listmode''"
    and c: "cast_spectra ''listmode'' S = Inr (w1, IntSpectra a)"
    and v: "validate (shape a) (broadcast E (shape a)) O'
        (broadcast (case sl of None \<Rightarrow> zeros_like (IntSpectra a) | Some s \<Rightarrow> s) (shape a)) z = Inr w2"
  shows "rebin S E O' method sl z rng =
     (w1 @ w2, bindE (rebin_listmode a (broadcast E (shape a)) O' rng)
           (\<lambda>out. Inr (IntSpectra out)))"
  unfolding rebin_def Let_def m c using v by simp

lemma rebin_dispatch_unknown:
  assumes m: "lower method \<noteq> ''interpolation'' \<and> lower method \<noteq> ''listmode''"
    and v: "validate (spectra_shape S) (broadcast E (spectra_shape S)) O'
        (broadcast (case sl of None \<Rightarrow> zeros_like S | Some s \<Rightarrow> s) (spectra_shape S)) z = Inr w"
  shows "rebin S E O' method sl z rng = (w, Inl (ValueError InvalidMethod))"
proof -
  have c: "cast_spectra (lower method) S = Inr ([], FloatSpectra (as_float S))"
    using m by (simp add: cast_spectra_def)
  have sh: "shape (as_float S) = spectra_shape S"
    by (simp add: as_float_def)
  have zl: "(case sl of None \<Rightarrow> zeros_like (FloatSpectra (as_float S)) | Some s \<Rightarrow> s) =
      (case sl of None \<Rightarrow> zeros_like S | Some s \<Rightarrow> s)"
    by (cases sl) (simp_all add: zeros_like_def as_float_def)
  show ?thesis
    using v m by (simp add: rebin_def Let_def c sh zl)
qed

lemma mixed_case_interpolation:
  "rebin (FloatSpectra (array1 [10, 10, 10])) (array1 [0, 1, 2, 3]) (array1 [0, 1, 2, 3, 4])
     ''Interpolation'' None True rng =
     ([ZerosPaddedRight], Inr (FloatSpectra (array1 [10, 10, 10, 0])))"
  by code_simp

lemma upper_case_listmode:
  "rebin (IntSpectra (array1 [2, 3])) (array1 [0, 1, 2]) (array1 [0, 2])
     ''LISTMODE'' None True rng = ([], Inr (IntSpectra (array1 [5])))"
  by code_simp

lemma unknown_name:
  "rebin (FloatSpectra (array1 [10, 10, 10])) (array1 [0, 1, 2, 3]) (array1 [0, 1, 2, 3, 4])
     ''linear'' None True rng = ([ZerosPaddedRight], Inl (ValueError InvalidMethod))"
  by code_simp

lemma validate_padded_example:
  "validate (spectra_shape (FloatSpectra (array1 [10, 10, 10])))
     (broadcast (array1 [0, 1, 2, 3]) (spectra_shape (FloatSpectra (array1 [10, 10, 10]))))
     (array1 [0, 1, 2, 3, 4])
     (broadcast (case None of None \<Rightarrow> zeros_like (FloatSpectra (array1 [10, 10, 10])) | Some s \<Rightarrow> s)
        (spectra_shape (FloatSpectra (array1 [10, 10, 10])))) True = Inr [ZerosPaddedRight]"
  by code_simp

text \<open>
  Claim C10: the method string is lower-cased before it is compared. A call whose method
  lower-cases to \<open>interpolation\<close> or to \<open>listmode\<close> (as \<open>Interpolation\<close> and \<open>LISTMODE\<close>
  do) is the call with that name and never ends in the error for an invalid method, and it
  reaches the kernel of that name: when the checks pass, its result is the output of
  \<^verbatim>\<open>_rebin_interpolation\<close>, respectively of \<^verbatim>\<open>_rebin_listmode\<close> on the spectra cast to
  integers, with the warnings of the checks. A call whose method lower-cases to neither
  name produces no result, and when the checks pass it ends in the error for an invalid
  method. So \<open>Interpolation\<close> rebins \<open>[10, 10, 10]\<close> onto \<open>[10, 10, 10, 0]\<close>, \<open>LISTMODE\<close>
  rebins \<open>[2, 3]\<close> onto the single bin \<open>[5]\<close>, and \<open>linear\<close> is refused.
\<close>

theorem rebin_method_case_insensitive:
  "(lower method = ''interpolation'' \<longrightarrow>
      rebin S E O' method sl z rng = rebin S E O' ''interpolation'' sl z rng \<and>
      snd (rebin S E O' method sl z rng) \<noteq> Inl (ValueError InvalidMethod) \<and>
      (\<forall>w. validate (spectra_shape S) (broadcast E (spectra_shape S)) O'
              (broadcast (case sl of None \<Rightarrow> zeros_like S | Some s \<Rightarrow> s) (spectra_shape S)) z =
            Inr w \<longrightarrow>
          rebin S E O' method sl z rng =
            (w, bindE (rebin_interpolation (as_float S) (broadcast E (spectra_shape S)) O'
                         (broadcast (case sl of None \<Rightarrow> zeros_like S | Some s \<Rightarrow> s)
                            (spectra_shape S)))
                  (\<lambda>out. Inr (FloatSpectra out))))) \<and>
   (lower method = ''listmode'' \<longrightarrow>
      rebin S E O' method sl z rng = rebin S E O' ''listmode'' sl z rng \<and>
      snd (rebin S E O' method sl z rng) \<noteq> Inl (ValueError InvalidMethod) \<and>
      (\<forall>w1 a w2. cast_spectra ''listmode'' S = Inr (w1, IntSpectra a) \<and>
            validate (shape a) (broadcast E (shape a)) O'
              (broadcast (case sl of None \<Rightarrow> zeros_like (IntSpectra a) | Some s \<Rightarrow> s) (shape a)) z =
            Inr w2 \<longrightarrow>
          rebin S E O' method sl z rng =
            (w1 @ w2, bindE (rebin_listmode a (broadcast E (shape a)) O' rng)
                        (\<lambda>out. Inr (IntSpectra out))))) \<and>
   (lower method \<noteq> ''interpolation'' \<and> lower method \<noteq> ''listmode'' \<longrightarrow>
      (\<exists>e. snd (rebin S E O' method sl z rng) = Inl e) \<and>
      (\<forall>w. validate (spectra_shape S) (broadcast E (spectra_shape S)) O'
              (broadcast (case sl of None \<Rightarrow> zeros_like S | Some s \<Rightarrow> s) (spectra_shape S)) z =
            Inr w \<longrightarrow>
          rebin S E O' method sl z rng = (w, Inl (ValueError InvalidMethod)))) \<and>
   lower ''Interpolation'' = ''interpolation'' \<and> lower ''LISTMODE'' = ''listmode'' \<and>
   rebin (FloatSpectra (array1 [10, 10, 10])) (array1 [0, 1, 2, 3]) (array1 [0, 1, 2, 3, 4])
     ''Interpolation'' None True rng =
     ([ZerosPaddedRight], Inr (FloatSpectra (array1 [10, 10, 10, 0]))) \<and>
   rebin (IntSpectra (array1 [2, 3])) (array1 [0, 1, 2]) (array1 [0, 2])
     ''LISTMODE'' None True rng = ([], Inr (IntSpectra (array1 [5]))) \<and>
   rebin (FloatSpectra (array1 [10, 10, 10])) (array1 [0, 1, 2, 3]) (array1 [0, 1, 2, 3, 4])
     ''linear'' None True rng = ([ZerosPaddedRight], Inl (ValueError InvalidMethod))"
proof (intro conjI impI allI)
  assume m: "lower method = ''interpolation''"
  have "rebin S E O' method sl z rng = rebin S E O' (lower method) sl z rng"
    by (rule rebin_lower)
  then show "rebin S E O' method sl z rng = rebin S E O' ''interpolation'' sl z rng"
    by (simp only: m)
  show "snd (rebin S E O' method sl z rng) \<noteq> Inl (ValueError InvalidMethod)"
    using m by (intro rebin_known_method) simp
next
  fix w
  assume m: "lower method = ''interpolation''"
    and v: "validate (spectra_shape S) (broadcast E (spectra_shape S)) O'
              (broadcast (case sl of None \<Rightarrow> zeros_like S | Some s \<Rightarrow> s) (spectra_shape S)) z =
            Inr w"
  show "rebin S E O' method sl z rng =
            (w, bindE (rebin_interpolation (as_float S) (broadcast E (spectra_shape S)) O'
                         (broadcast (case sl of None \<Rightarrow> zeros_like S | Some s \<Rightarrow> s)
                            (spectra_shape S)))
                  (\<lambda>out. Inr (FloatSpectra out)))"
    using m v by (rule rebin_dispatch_interpolation)
next
  assume m: "lower method = ''listmode''"
  have "rebin S E O' method sl z rng = rebin S E O' (lower method) sl z rng"
    by (rule rebin_lower)
  then show "rebin S E O' method sl z rng = rebin S E O' ''listmode'' sl z rng"
    by (simp only: m)
  show "snd (rebin S E O' method sl z rng) \<noteq> Inl (ValueError InvalidMethod)"
    using m by (intro rebin_known_method) simp
next
  fix w1 a w2
  assume m: "lower method = ''listmode''"
    and cv: "cast_spectra ''listmode'' S = Inr (w1, IntSpectra a) \<and>
            validate (shape a) (broadcast E (shape a)) O'
              (broadcast (case sl of None \<Rightarrow> zeros_like (IntSpectra a) | Some s \<Rightarrow> s) (shape a)) z =
            Inr w2"
  show "rebin S E O' method sl z rng =
            (w1 @ w2, bindE (rebin_listmode a (broadcast E (shape a)) O' rng)
                        (\<lambda>out. Inr (IntSpectra out)))"
    using m conjunct1 [OF cv] conjunct2 [OF cv] by (rule rebin_dispatch_listmode)
next
  assume "lower method \<noteq> ''interpolation'' \<and> lower method \<noteq> ''listmode''"
  then show "\<exists>e. snd (rebin S E O' method sl z rng) = Inl e"
    by (auto simp: rebin_def Let_def split: sum.splits prod.splits)
next
  fix w
  assume m: "lower method \<noteq> ''interpolation'' \<and> lower method \<noteq> ''listmode''"
    and v: "validate (spectra_shape S) (broadcast E (spectra_shape S)) O'
              (broadcast (case sl of None \<Rightarrow> zeros_like S | Some s \<Rightarrow> s) (spectra_shape S)) z =
            Inr w"
  show "rebin S E O' method sl z rng = (w, Inl (ValueError InvalidMethod))"
    using m v by (rule rebin_dispatch_unknown)
next
  show "lower ''Interpolation'' = ''interpolation''"
    by code_simp
  show "lower ''LISTMODE'' = ''listmode''"
    by code_simp
  show "rebin (FloatSpectra (array1 [10, 10, 10])) (array1 [0, 1, 2, 3]) (array1 [0, 1, 2, 3, 4])
     ''Interpolation'' None True rng =
     ([ZerosPaddedRight], Inr (FloatSpectra (array1 [10, 10, 10, 0])))"
    by (rule mixed_case_interpolation)
  show "rebin (IntSpectra (array1 [2, 3])) (array1 [0, 1, 2]) (array1 [0, 2])
     ''LISTMODE'' None True rng = ([], Inr (IntSpectra (array1 [5])))"
    by (rule upper_case_listmode)
  show "rebin (FloatSpectra (array1 [10, 10, 10])) (array1 [0, 1, 2, 3]) (array1 [0, 1, 2, 3, 4])
     ''linear'' None True rng = ([ZerosPaddedRight], Inl (ValueError InvalidMethod))"
    by (rule unknown_name)
qed

theorem rebin_method_case_insensitive_witness:
  "lower ''Interpolation'' = ''interpolation'' \<and>
   validate [3] (array1 [0, 1, 2, 3]) (array1 [0, 1, 2, 3, 4])
     (zeros_like (FloatSpectra (array1 [10, 10, 10]))) True = Inr [ZerosPaddedRight] \<and>
   rebin (FloatSpectra (array1 [10, 10, 10])) (array1 [0, 1, 2, 3]) (array1 [0, 1, 2, 3, 4])
     ''Interpolation'' None True (sconst 0) =
   rebin (FloatSpectra (array1 [10, 10, 10])) (array1 [0, 1, 2, 3]) (array1 [0, 1, 2, 3, 4])
     ''interpolation'' None True (sconst 0) \<and>
   snd (rebin (FloatSpectra (array1 [10, 10, 10])) (array1 [0, 1, 2, 3]) (array1 [0, 1, 2, 3, 4])
     ''Interpolation'' None True (sconst 0)) \<noteq> Inl (ValueError InvalidMethod) \<and>
   rebin (FloatSpectra (array1 [10, 10, 10])) (array1 [0, 1, 2, 3]) (array1 [0, 1, 2, 3, 4])
     ''Interpolation'' None True (sconst 0) =
     ([ZerosPaddedRight],
      bindE (rebin_interpolation (array1 [10, 10, 10]) (array1 [0, 1, 2, 3])
               (array1 [0, 1, 2, 3, 4]) (zeros_like (FloatSpectra (array1 [10, 10, 10]))))
        (\<lambda>out. Inr (FloatSpectra out)))"
proof -
  have l: "lower ''Interpolation'' = ''interpolation''"
    by code_simp
  note t = mp [OF conjunct1 [OF rebin_method_case_insensitive
        [of "''Interpolation''" "FloatSpectra (array1 [10, 10, 10])" "array1 [0, 1, 2, 3]"
          "array1 [0, 1, 2, 3, 4]" None True "sconst 0"]] l]
  note a = conjunct1 [OF t]
  note b = conjunct1 [OF conjunct2 [OF t]]
  note c = mp [OF spec [OF conjunct2 [OF conjunct2 [OF t]], of "[ZerosPaddedRight]"]
      validate_padded_example]
  have v: "validate [3] (array1 [0, 1, 2, 3]) (array1 [0, 1, 2, 3, 4])
     (zeros_like (FloatSpectra (array1 [10, 10, 10]))) True = Inr [ZerosPaddedRight]"
    by code_simp
  have c': "rebin (FloatSpectra (array1 [10, 10, 10])) (array1 [0, 1, 2, 3]) (array1 [0, 1, 2, 3, 4])
     ''Interpolation'' None True (sconst 0) =
     ([ZerosPaddedRight],
      bindE (rebin_interpolation (array1 [10, 10, 10]) (array1 [0, 1, 2, 3])
               (array1 [0, 1, 2, 3, 4]) (zeros_like (FloatSpectra (array1 [10, 10, 10]))))
        (\<lambda>out. Inr (FloatSpectra out)))"
    using c by (simp add: as_float_array1)
  show ?thesis
    by (intro conjI) (rule l v a b c')+
qed

subsection \<open>The listmode method conserves the counts\<close>

lemma py_get_nat: "i < length xs \<Longrightarrow> py_get xs (int i) = Inr (xs ! i)"
  by (simp add: py_get_def py_pos_def)

lemma fill_energies_total:
  assumes "\<forall>c \<in> set sp. 0 \<le> c" and "length es = length sp + 1"
  shows "i \<le> length sp \<Longrightarrow>
    \<exists>en rng'. fill_energies sp es [int i .. int (length sp) - 1] (acc, rng) = Inr (en, rng') \<and>
       int (length en) = int (length acc) + sum_list (drop i sp)"
proof (induction "length sp - i" arbitrary: i acc rng)
  case 0
  then have "i = length sp" by simp
  then show ?case by simp
next
  case (Suc k)
  then have i: "i < length sp" by simp
  have up: "[int i .. int (length sp) - 1] = int i # [int (Suc i) .. int (length sp) - 1]"
    using i by (simp add: upto_rec1 [of "int i"] add.commute)
  have nn: "0 \<le> sp ! i" using assms(1) i by simp
  have k: "k = length sp - Suc i" using Suc.hyps(2) by simp
  have le: "Suc i \<le> length sp" using i by simp
  obtain en rng' where r: "fill_energies sp es [int (Suc i) .. int (length sp) - 1]
       (acc @ map (\<lambda>u. es ! i + (es ! Suc i - es ! i) * u) (stake (nat (sp ! i)) rng),
        sdrop (nat (sp ! i)) rng) = Inr (en, rng')"
    and l: "int (length en) = int (length (acc @ map (\<lambda>u. es ! i + (es ! Suc i - es ! i) * u)
        (stake (nat (sp ! i)) rng))) + sum_list (drop (Suc i) sp)"
    using Suc.hyps(1) [OF k le] by blast
  have g1: "py_get sp (int i) = Inr (sp ! i)" using i by (rule py_get_nat)
  have g2: "py_get es (int i) = Inr (es ! i)" using i assms(2) by (intro py_get_nat) simp
  have g3: "py_get es (int i + 1) = Inr (es ! Suc i)"
    using py_get_nat [of "Suc i" es] i assms(2) by (simp add: add.commute)
  have d: "drop i sp = sp ! i # drop (Suc i) sp"
    using i by (simp add: Cons_nth_drop_Suc)
  show ?case
    unfolding up fill_energies.simps g1 g2 g3 bindE_Inr
    using nn r l by (simp add: d)
qed

lemma sum_list_diff_int: "xs \<noteq> [] \<Longrightarrow> sum_list (diff_int xs) = last xs - hd xs"
  by (induction xs rule: diff_int.induct) auto

lemma length_diff_int: "length (diff_int xs) = length xs - 1"
  by (induction xs rule: diff_int.induct) auto

lemma count_below_mono: "f8_le a b \<Longrightarrow> count_below vs a \<le> count_below vs b"
proof -
  assume ab: "f8_le a b"
  have "\<And>v. f8_less (Finite v) a \<Longrightarrow> f8_less (Finite v) b"
    using ab by (cases a; cases b) auto
  then have "length (filter (\<lambda>v. f8_less (Finite v) a) vs) \<le> length (filter (\<lambda>v. f8_less (Finite v) b) vs)"
    by (induction vs) auto
  then show ?thesis by (simp add: count_below_def)
qed

lemma count_below_upto: "f8_le a b \<Longrightarrow> count_below vs a \<le> count_upto vs b"
proof -
  assume ab: "f8_le a b"
  have "\<And>v. f8_less (Finite v) a \<Longrightarrow> f8_le (Finite v) b"
    using ab by (cases a; cases b) auto
  then have "length (filter (\<lambda>v. f8_less (Finite v) a) vs) \<le> length (filter (\<lambda>v. f8_le (Finite v) b) vs)"
    by (induction vs) auto
  then show ?thesis by (simp add: count_below_def count_upto_def)
qed

lemma cumulative_diff_nonneg:
  "increasing_f8 (b # bs) \<Longrightarrow> bs \<noteq> [] \<Longrightarrow>
   \<forall>x \<in> set (diff_int (map (count_below vs) (butlast (b # bs)) @ [count_upto vs (last (b # bs))])). 0 \<le> x"
proof (induction bs arbitrary: b)
  case Nil
  then show ?case by simp
next
  case (Cons c cs)
  show ?case
  proof (cases cs)
    case Nil
    have "f8_le b c" using Cons.prems(1) by simp
    then have "count_below vs b \<le> count_upto vs c" by (rule count_below_upto)
    then show ?thesis unfolding Nil by simp
  next
    case (Cons d ds)
    have inc: "increasing_f8 (c # cs)" and bc: "f8_le b c"
      using Cons.prems(1) by simp_all
    have ne: "cs \<noteq> []" using Cons by simp
    have ih: "\<forall>x \<in> set (diff_int (map (count_below vs) (butlast (c # cs)) @ [count_upto vs (last (c # cs))])). 0 \<le> x"
      using Cons.IH [OF inc ne] .
    have le: "count_below vs b \<le> count_below vs c"
      using bc by (rule count_below_mono)
    have e1: "map (count_below vs) (butlast (b # c # cs)) @ [count_upto vs (last (b # c # cs))]
        = count_below vs b # (map (count_below vs) (butlast (c # cs)) @ [count_upto vs (last (c # cs))])"
      by simp
    have e2: "map (count_below vs) (butlast (c # cs)) @ [count_upto vs (last (c # cs))]
        = count_below vs c # (map (count_below vs) (butlast cs) @ [count_upto vs (last cs)])"
      using ne by simp
    show ?thesis
      unfolding e1 using ih le unfolding e2 by simp
  qed
qed

lemma histogram_total:
  assumes "increasing_f8 (NegInf # bs @ [PosInf])"
  shows "\<exists>h. histogram vs (NegInf # bs @ [PosInf]) = Inr h \<and> length h = length bs + 1 \<and>
     (\<forall>x \<in> set h. 0 \<le> x) \<and> sum_list h = int (length vs)"
proof -
  let ?cum = "map (count_below vs) (butlast (NegInf # bs @ [PosInf])) @ [count_upto vs (last (NegInf # bs @ [PosInf]))]"
  have h: "histogram vs (NegInf # bs @ [PosInf]) = Inr (diff_int ?cum)"
    using assms by (simp add: histogram_def)
  have hd: "hd ?cum = 0"
    by (simp add: count_below_def)
  have lst: "last ?cum = int (length vs)"
    by (simp add: count_upto_def)
  have "sum_list (diff_int ?cum) = int (length vs)"
    using sum_list_diff_int [of ?cum] hd lst by simp
  moreover have "\<forall>x \<in> set (diff_int ?cum). 0 \<le> x"
    using cumulative_diff_nonneg [OF assms, of vs] by simp
  moreover have "length (diff_int ?cum) = length bs + 1"
    by (simp add: length_diff_int)
  ultimately show ?thesis using h by blast
qed

lemma increasing_f8_wrap:
  "sorted xs \<Longrightarrow> increasing_f8 (NegInf # map Finite xs @ [PosInf])"
proof -
  have a: "\<And>x. sorted (x # xs) \<Longrightarrow> increasing_f8 (Finite x # map Finite xs @ [PosInf])"
  proof (induction xs)
    case Nil
    then show ?case by simp
  next
    case (Cons y ys)
    then show ?case by (simp del: f8_le.simps) simp
  qed
  assume "sorted xs"
  then show ?thesis using a by (cases xs) auto
qed


lemma listmode_vectorized_total:
  assumes nn: "\<forall>c \<in> set cs. 0 \<le> c" and len: "length es = length cs + 1"
    and so: "sorted os" and l2: "2 \<le> length os"
  shows "\<exists>h rng'. rebin_listmode_vectorized cs es (butlast os) rng = Inr (h, rng') \<and>
     length h = length os - 1 \<and> (\<forall>x \<in> set h. 0 \<le> x) \<and> sum_list h = sum_list cs"
proof -
  have s0: "0 \<le> sum_list cs"
    using nn by (simp add: sum_list_nonneg)
  have ne: "butlast os \<noteq> []"
    using l2 by (cases os rule: rev_cases) auto
  obtain en rng' where f: "fill_energies cs es [0 .. int (length cs) - 1] ([], rng) = Inr (en, rng')"
    and le: "int (length en) = sum_list cs"
    using fill_energies_total [OF nn len, of 0 "[]" rng] by auto
  have "sorted (tl (butlast os))"
    using so by (simp add: sorted_tl sorted_butlast)
  then have inc: "increasing_f8 (NegInf # map Finite (tl (butlast os)) @ [PosInf])"
    by (rule increasing_f8_wrap)
  obtain h where h: "histogram en (NegInf # map Finite (tl (butlast os)) @ [PosInf]) = Inr h"
    and lh: "length h = length (map Finite (tl (butlast os))) + 1"
    and ph: "\<forall>x \<in> set h. 0 \<le> x" and sh: "sum_list h = int (length en)"
    using histogram_total [OF inc, of en] by blast
  have lh': "length h = length os - 1"
    using lh l2 by simp
  have "rebin_listmode_vectorized cs es (butlast os) rng = Inr (h, rng')"
    using s0 ne by (simp add: rebin_listmode_vectorized_def f h)
  then show ?thesis
    using lh' ph sh le by auto
qed

lemma rebin_listmode_array1:
  assumes "rebin_listmode_vectorized cs es (butlast os) rng = Inr (h, rng')"
    and "length h = length os - 1"
  shows "rebin_listmode (array1 cs) (array1 es) (array1 os) rng = Inr (array1 h)"
  using assms by (simp add: rebin_listmode_def array1_def rows_def)

lemma check_partial_overlap_array1:
  "es \<noteq> [] \<Longrightarrow> os \<noteq> [] \<Longrightarrow> \<exists>w. check_partial_overlap (array1 es) (array1 os) = Inr w"
  by (simp add: check_partial_overlap_def column_def py_get_first py_get_last)

lemma sorted_increasing_row: "sorted es \<Longrightarrow> increasing_row es"
  unfolding increasing_row_iff
proof (intro allI impI)
  fix i assume s: "sorted es" and i: "Suc i < length es"
  have "es ! i \<le> es ! Suc i"
    using sorted_nth_mono [OF s, of i "Suc i"] i by simp
  then show "es ! i - 1 / 10 ^ 8 \<le> es ! Suc i" by simp
qed

lemma listmode_conserves:
  assumes m: "lower method = ''listmode''"
    and nn: "\<forall>c \<in> set cs. 0 \<le> c" and pos: "\<exists>c \<in> set cs. 1 \<le> c"
    and len: "length es = length cs + 1" and ie: "increasing_row es"
    and so: "sorted os" and l2: "2 \<le> length os"
    and ov1: "hd os < last es" and ov2: "hd es < last os"
    and sl: "slopes = None \<or> (\<exists>sl. slopes = Some sl \<and> shape sl = [length cs])"
  shows "\<exists>ws r. rebin (IntSpectra (array1 cs)) (array1 es) (array1 os) method slopes z rng =
       (ws, Inr (IntSpectra (array1 r))) \<and>
     length r = length os - 1 \<and> (\<forall>x \<in> set r. 0 \<le> x) \<and> sum_list r = sum_list cs"
proof -
  have c: "cast_spectra ''listmode'' (IntSpectra (array1 cs)) = Inr ([], IntSpectra (array1 cs))"
    using nn pos by (auto simp: cast_spectra_def list_ex_iff list_all_iff not_less)
  define s where "s = (case slopes of None \<Rightarrow> zeros_like (IntSpectra (array1 cs)) | Some a \<Rightarrow> a)"
  have s: "shape s = [length cs]"
    using sl by (auto simp: s_def zeros_like_def)
  have one: "os \<noteq> []" and ees: "es \<noteq> []"
    using l2 len by auto
  have io: "increasing_row os"
    using so by (rule sorted_increasing_row)
  obtain w where w: "check_partial_overlap (array1 es) (array1 os) = Inr w"
    using check_partial_overlap_array1 [OF ees one] by blast
  have v: "validate [length cs] (array1 es) (array1 os) s z = Inr (if z then w else [])"
    using ov1 ov2 by (simp add: validate_rank1 [OF len s one ie io] w)
  obtain h rng' where k: "rebin_listmode_vectorized cs es (butlast os) rng = Inr (h, rng')"
    and lh: "length h = length os - 1" and ph: "\<forall>x \<in> set h. 0 \<le> x"
    and sh: "sum_list h = sum_list cs"
    using listmode_vectorized_total [OF nn len so l2, of rng] by blast
  have r: "rebin_listmode (array1 cs) (array1 es) (array1 os) rng = Inr (array1 h)"
    using k lh by (rule rebin_listmode_array1)
  have "rebin (IntSpectra (array1 cs)) (array1 es) (array1 os) method slopes z rng =
      (if z then w else [], Inr (IntSpectra (array1 h)))"
    by (simp add: rebin_def m c s s_def [symmetric] v r)
  then show ?thesis
    using lh ph sh by blast
qed

text \<open>
  Claim C7: for every spectrum of non-negative integer counts that the listmode method
  accepts (a count of at least one, as many edges as bins plus one, increasing input edges,
  sorted output edges that overlap the input range and make at least one output bin) and
  for every state of the random generator, \<^verbatim>\<open>rebin\<close> returns one integer for every
  output bin, none of them negative, and their sum is the sum of the input counts: every
  event falls into exactly one bin of the histogram whose outer edges are infinite. In
  particular the spectrum \<open>[100, 0, 50]\<close> over the edges \<open>[0, 1, 2, 3]\<close> rebinned onto
  \<open>[0, 1.5, 3]\<close> gives two non-negative counts that sum to 150.
\<close>

theorem rebin_listmode_conserves:
  "(lower method = ''listmode'' \<and> (\<forall>c \<in> set cs. 0 \<le> c) \<and> (\<exists>c \<in> set cs. 1 \<le> c) \<and>
    length es = length cs + 1 \<and> increasing_row es \<and> sorted os \<and> 2 \<le> length os \<and>
    hd os < last es \<and> hd es < last os \<and>
    (slopes = None \<or> (\<exists>sl. slopes = Some sl \<and> shape sl = [length cs])) \<longrightarrow>
    (\<exists>ws r. rebin (IntSpectra (array1 cs)) (array1 es) (array1 os) method slopes z rng =
         (ws, Inr (IntSpectra (array1 r))) \<and>
       length r = length os - 1 \<and> (\<forall>x \<in> set r. 0 \<le> x) \<and> sum_list r = sum_list cs)) \<and>
   (\<exists>ws r. rebin (IntSpectra (array1 [100, 0, 50])) (array1 [0, 1, 2, 3]) (array1 [0, 3 / 2, 3])
         ''listmode'' None True rng = (ws, Inr (IntSpectra (array1 r))) \<and>
       length r = 2 \<and> (\<forall>x \<in> set r. 0 \<le> x) \<and> sum_list r = 150)"
proof (intro conjI impI)
  assume a: "lower method = ''listmode'' \<and> (\<forall>c \<in> set cs. 0 \<le> c) \<and> (\<exists>c \<in> set cs. 1 \<le> c) \<and>
    length es = length cs + 1 \<and> increasing_row es \<and> sorted os \<and> 2 \<le> length os \<and>
    hd os < last es \<and> hd es < last os \<and>
    (slopes = None \<or> (\<exists>sl. slopes = Some sl \<and> shape sl = [length cs]))"
  show "\<exists>ws r. rebin (IntSpectra (array1 cs)) (array1 es) (array1 os) method slopes z rng =
         (ws, Inr (IntSpectra (array1 r))) \<and>
       length r = length os - 1 \<and> (\<forall>x \<in> set r. 0 \<le> x) \<and> sum_list r = sum_list cs"
    by (rule listmode_conserves) (use a in blast)+
next
  have l: "lower ''listmode'' = ''listmode''"
    by code_simp
  have i: "increasing_row [0, 1, 2, 3]"
    by (simp add: increasing_row_def)
  have "\<exists>ws r. rebin (IntSpectra (array1 [100, 0, 50])) (array1 [0, 1, 2, 3]) (array1 [0, 3 / 2, 3])
         ''listmode'' None True rng = (ws, Inr (IntSpectra (array1 r))) \<and>
       length r = length [0, 3 / 2, 3 :: real] - 1 \<and> (\<forall>x \<in> set r. 0 \<le> x) \<and>
       sum_list r = sum_list [100, 0, 50]"
    by (rule listmode_conserves [OF l _ _ _ i]) simp_all
  then show "\<exists>ws r. rebin (IntSpectra (array1 [100, 0, 50])) (array1 [0, 1, 2, 3]) (array1 [0, 3 / 2, 3])
         ''listmode'' None True rng = (ws, Inr (IntSpectra (array1 r))) \<and>
       length r = 2 \<and> (\<forall>x \<in> set r. 0 \<le> x) \<and> sum_list r = 150"
    by (simp add: numeral_2_eq_2)
qed

theorem rebin_listmode_conserves_witness:
  "lower ''LISTMODE'' = ''listmode'' \<and> list_all (\<lambda>c. 0 \<le> c) [3, 0, 2 :: int] \<and>
   (\<exists>c \<in> set [3, 0, 2 :: int]. 1 \<le> c) \<and> increasing_row [0, 1, 2, 3] \<and>
   sorted [1 / 2, 3 / 2, 4 :: real] \<and>
   (\<exists>ws r. rebin (IntSpectra (array1 [3, 0, 2])) (array1 [0, 1, 2, 3]) (array1 [1 / 2, 3 / 2, 4])
         ''LISTMODE'' None True (sconst 0) = (ws, Inr (IntSpectra (array1 r))) \<and>
       length r = 2 \<and> (\<forall>x \<in> set r. 0 \<le> x) \<and> sum_list r = 5)"
proof -
  have l: "lower ''LISTMODE'' = ''listmode''"
    by code_simp
  have i: "increasing_row [0, 1, 2, 3]"
    by (simp add: increasing_row_def)
  have h: "lower ''LISTMODE'' = ''listmode'' \<and> (\<forall>c \<in> set [3, 0, 2 :: int]. 0 \<le> c) \<and>
    (\<exists>c \<in> set [3, 0, 2 :: int]. 1 \<le> c) \<and>
    length [0, 1, 2, 3 :: real] = length [3, 0, 2 :: int] + 1 \<and> increasing_row [0, 1, 2, 3] \<and>
    sorted [1 / 2, 3 / 2, 4 :: real] \<and> 2 \<le> length [1 / 2, 3 / 2, 4 :: real] \<and>
    hd [1 / 2, 3 / 2, 4 :: real] < last [0, 1, 2, 3] \<and> hd [0, 1, 2, 3 :: real] < last [1 / 2, 3 / 2, 4] \<and>
    (None = None \<or> (\<exists>sl. None = Some sl \<and> shape (sl :: real ndarray) = [length [3, 0, 2 :: int]]))"
    using l i by simp
  have "\<exists>ws r. rebin (IntSpectra (array1 [3, 0, 2])) (array1 [0, 1, 2, 3]) (array1 [1 / 2, 3 / 2, 4])
         ''LISTMODE'' None True (sconst 0) = (ws, Inr (IntSpectra (array1 r))) \<and>
       length r = length [1 / 2, 3 / 2, 4 :: real] - 1 \<and> (\<forall>x \<in> set r. 0 \<le> x) \<and>
       sum_list r = sum_list [3, 0, 2]"
    by (rule mp [OF conjunct1 [OF rebin_listmode_conserves] h])
  then show ?thesis
    using l i by (simp add: numeral_2_eq_2)
qed

subsection \<open>The interpolation method on one spectrum\<close>

lemma check_partial_overlap_array1_eq:
  "es \<noteq> [] \<Longrightarrow> os \<noteq> [] \<Longrightarrow>
   check_partial_overlap (array1 es) (array1 os) =
     Inr ((if hd os < hd es then [ZerosPaddedLeft] else []) @
          (if last es < last os then [ZerosPaddedRight] else []))"
  by (simp add: check_partial_overlap_def column_def py_get_first py_get_last)

lemma rebin_interpolation_array1:
  assumes "shape s = [length sp]"
    and "rebin_interpolation_vectorized sp es (butlast os) (data s) = Inr out"
    and "length out = length os - 1"
  shows "rebin_interpolation (array1 sp) (array1 es) (array1 os) s = Inr (array1 out)"
  using assms by (simp add: rebin_interpolation_def rows_def array1_def)

lemma rebin_interpolation_rank1:
  assumes m: "lower method = ''interpolation''"
    and le: "length es = length sp + 1"
    and ie: "increasing_row es" and io: "increasing_row os" and one: "os \<noteq> []"
    and ov1: "hd os < last es" and ov2: "hd es < last os"
    and s: "s = (case slopes of None \<Rightarrow> zeros_like (FloatSpectra (array1 sp)) | Some a \<Rightarrow> a)"
    and sh: "shape s = [length sp]"
    and k: "rebin_interpolation_vectorized sp es (butlast os) (data s) = Inr out"
    and lo: "length out = length os - 1"
  shows "rebin (FloatSpectra (array1 sp)) (array1 es) (array1 os) method slopes z rng =
     (if z then (if hd os < hd es then [ZerosPaddedLeft] else []) @
               (if last es < last os then [ZerosPaddedRight] else [])
      else [],
      Inr (FloatSpectra (array1 out)))"
proof -
  have c: "cast_spectra ''interpolation'' (FloatSpectra (array1 sp)) =
      Inr ([], FloatSpectra (array1 sp))"
    by (simp add: cast_spectra_def as_float_array1)
  have ees: "es \<noteq> []" using le by auto
  have v: "validate [length sp] (array1 es) (array1 os) s z =
      Inr (if z then (if hd os < hd es then [ZerosPaddedLeft] else []) @
               (if last es < last os then [ZerosPaddedRight] else [])
      else [])"
    using ov1 ov2
    by (simp add: validate_rank1 [OF le sh one ie io] check_partial_overlap_array1_eq [OF ees one])
  have r: "rebin_interpolation (array1 sp) (array1 es) (array1 os) s = Inr (array1 out)"
    using sh k lo by (rule rebin_interpolation_array1)
  show ?thesis
    by (simp add: rebin_def m c sh s [symmetric] v r as_float_array1)
qed

lemma strict_hd_last:
  fixes xs :: "real list"
  assumes "sorted_wrt (<) xs" and "2 \<le> length xs"
  shows "hd xs < last xs"
proof -
  have "xs ! 0 < xs ! (length xs - 1)"
    using sorted_wrt_nth_less [OF assms(1), of 0 "length xs - 1"] assms(2) by simp
  moreover have "xs \<noteq> []" using assms(2) by auto
  ultimately show ?thesis
    by (simp add: hd_conv_nth last_conv_nth)
qed

subsection \<open>The interpolation method conserves the counts\<close>

lemma sum_list_update_add:
  fixes xs :: "real list"
  shows "k < length xs \<Longrightarrow> sum_list (xs[k := xs ! k + v]) = sum_list xs + v"
proof (induction xs arbitrary: k)
  case Nil
  then show ?case by simp
next
  case (Cons x xs)
  then show ?case by (cases k) simp_all
qed

lemma py_add_nat: "j < length xs \<Longrightarrow> py_add xs (int j) v = Inr (xs[j := xs ! j + v])"
  by (simp add: py_add_def py_get_def py_pos_def)

lemma out_edges_get:
  "j < length ov \<Longrightarrow> py_get (map Finite ov @ [PosInf]) (int j) = Inr (Finite (ov ! j))"
  by (simp add: py_get_def py_pos_def nth_append)

lemma out_edges_get_last:
  "py_get (map Finite ov @ [PosInf]) (int (length ov)) = Inr PosInf"
  by (simp add: py_get_def py_pos_def nth_append)

lemma out_edges_get_Suc:
  "j < length ov \<Longrightarrow> py_get (map Finite ov @ [PosInf]) (int j + 1) =
     Inr (if Suc j < length ov then Finite (ov ! Suc j) else PosInf)"
proof -
  assume j: "j < length ov"
  have e: "int j + 1 = int (Suc j)" by simp
  show ?thesis
  proof (cases "Suc j < length ov")
    case True
    then show ?thesis unfolding e by (simp only: out_edges_get if_True)
  next
    case False
    then have "Suc j = length ov" using j by simp
    then show ?thesis unfolding e using out_edges_get_last [of ov] by simp
  qed
qed

lemma upto_Cons_nat: "j < m \<Longrightarrow> [int j .. int m - 1] = int j # [int (Suc j) .. int m - 1]"
  by (simp add: upto_rec1 [of "int j"] add.commute)

lemma upto_empty_nat: "[int m .. int m - 1] = []"
  by simp

lemma out_bins_loop_sum:
  fixes ov :: "real list"
  assumes so: "sorted ov"
  shows "j < length ov \<Longrightarrow> length out = length ov \<Longrightarrow> ov ! j \<le> R \<Longrightarrow>
     (Suc j < length ov \<longrightarrow> L \<le> ov ! Suc j) \<Longrightarrow>
     \<exists>s out'. out_bins_loop (map Finite ov @ [PosInf]) L R slope b
                 [int j .. int (length ov) - 1] (k, out) = Inr (int s, out') \<and>
        length out' = length ov \<and>
        sum_list out' = sum_list out + slope_integral R slope b
           - slope_integral (if j = 0 then L else max L (ov ! j)) slope b \<and>
        s < length ov \<and> ov ! s \<le> R \<and> (Suc s < length ov \<longrightarrow> R < ov ! Suc s)"
proof (induction "length ov - j" arbitrary: j out k)
  case 0
  then show ?case by simp
next
  case (Suc d)
  let ?m = "length ov"
  let ?oe = "map Finite ov @ [PosInf]"
  let ?low = "if j = 0 then L else max L (ov ! j)"
  have j: "j < ?m" and lo: "length out = ?m" and oj: "ov ! j \<le> R"
    and nx: "Suc j < ?m \<longrightarrow> L \<le> ov ! Suc j"
    using Suc.prems by simp_all
  have up: "[int j .. int ?m - 1] = int j # [int (Suc j) .. int ?m - 1]"
    using j by (rule upto_Cons_nat)
  have g1: "py_get ?oe (int j) = Inr (Finite (ov ! j))"
    using j by (rule out_edges_get)
  have g2: "py_get ?oe (int j + 1) = Inr (if Suc j < ?m then Finite (ov ! Suc j) else PosInf)"
    using j by (rule out_edges_get_Suc)
  have nb: "\<not> f8_less (Finite R) (Finite (ov ! j))"
    using oj by simp
  have lowv: "(if int j = 0 then Finite L else f8_max L (Finite (ov ! j))) = Finite ?low"
    by simp
  show ?case
  proof (cases "Suc j < ?m")
    case False
    then have last: "Suc j = ?m" using j by simp
    have hi: "(if int j = int (length out) - 1 then Finite R
        else f8_min R (if Suc j < ?m then Finite (ov ! Suc j) else PosInf)) = Finite R"
      using last lo by simp
    have rest: "[int (Suc j) .. int ?m - 1] = []"
      using last by simp
    have ad: "py_add out (int j) (counts slope b ?low R) =
        Inr (out[j := out ! j + counts slope b ?low R])"
      using j lo by (intro py_add_nat) simp
    have res: "out_bins_loop ?oe L R slope b [int j .. int ?m - 1] (k, out) =
        Inr (int j, out[j := out ! j + counts slope b ?low R])"
      unfolding up out_bins_loop.simps g1 g2 bindE_Inr
      by (simp only: nb if_False lowv hi finite_value.simps bindE_Inr ad rest out_bins_loop.simps)
    have sm: "sum_list (out[j := out ! j + counts slope b ?low R]) =
        sum_list out + slope_integral R slope b - slope_integral ?low slope b"
      using j lo by (simp add: sum_list_update_add counts_def)
    show ?thesis
      unfolding res using sm j lo oj last by (intro exI [of _ j] exI [of _ "out[j := out ! j + counts slope b ?low R]"]) simp
  next
    case True
    have hi: "(if int j = int (length out) - 1 then Finite R
        else f8_min R (if Suc j < ?m then Finite (ov ! Suc j) else PosInf)) =
        Finite (min R (ov ! Suc j))"
      using True lo by simp
    let ?high = "min R (ov ! Suc j)"
    let ?out1 = "out[j := out ! j + counts slope b ?low ?high]"
    have ad: "py_add out (int j) (counts slope b ?low ?high) = Inr ?out1"
      using j lo by (intro py_add_nat) simp
    have step: "out_bins_loop ?oe L R slope b [int j .. int ?m - 1] (k, out) =
        out_bins_loop ?oe L R slope b [int (Suc j) .. int ?m - 1] (int j, ?out1)"
      unfolding up out_bins_loop.simps g1 g2 bindE_Inr
      by (simp only: nb if_False lowv hi finite_value.simps bindE_Inr ad)
    have sm: "sum_list ?out1 =
        sum_list out + slope_integral ?high slope b - slope_integral ?low slope b"
      using j lo by (simp add: sum_list_update_add counts_def)
    have l1: "length ?out1 = ?m" using lo by simp
    show ?thesis
    proof (cases "R < ov ! Suc j")
      case br: True
      have up2: "[int (Suc j) .. int ?m - 1] = int (Suc j) # [int (Suc (Suc j)) .. int ?m - 1]"
        using True by (rule upto_Cons_nat)
      have h1: "py_get ?oe (int (Suc j)) = Inr (Finite (ov ! Suc j))"
        using True by (rule out_edges_get)
      obtain x where h2: "py_get ?oe (int (Suc j) + 1) = Inr x"
        using out_edges_get_Suc [OF True] by blast
      have bk: "f8_less (Finite R) (Finite (ov ! Suc j))"
        using br by simp
      have res: "out_bins_loop ?oe L R slope b [int j .. int ?m - 1] (k, out) = Inr (int j, ?out1)"
        unfolding step up2 out_bins_loop.simps h1 h2 bindE_Inr
        using bk by simp
      have hr: "?high = R" using br by simp
      show ?thesis
        unfolding res using sm l1 j oj br True hr
        by (intro exI [of _ j] exI [of _ ?out1]) simp
    next
      case nbr: False
      then have le: "ov ! Suc j \<le> R" by simp
      have d: "d = ?m - Suc j" using Suc.hyps(2) by simp
      have nx2: "Suc (Suc j) < ?m \<longrightarrow> L \<le> ov ! Suc (Suc j)"
      proof
        assume a: "Suc (Suc j) < ?m"
        have "ov ! Suc j \<le> ov ! Suc (Suc j)"
          using sorted_nth_mono [OF so, of "Suc j" "Suc (Suc j)"] a by simp
        then show "L \<le> ov ! Suc (Suc j)" using nx True by simp
      qed
      obtain s out' where r: "out_bins_loop ?oe L R slope b [int (Suc j) .. int ?m - 1]
            (int j, ?out1) = Inr (int s, out')"
        and l2: "length out' = ?m"
        and s2: "sum_list out' = sum_list ?out1 + slope_integral R slope b
           - slope_integral (if Suc j = 0 then L else max L (ov ! Suc j)) slope b"
        and p: "s < ?m \<and> ov ! s \<le> R \<and> (Suc s < ?m \<longrightarrow> R < ov ! Suc s)"
        using Suc.hyps(1) [OF d True l1 le nx2, of "int j"] by blast
      have hr: "?high = ov ! Suc j" using le by simp
      have mx: "max L (ov ! Suc j) = ov ! Suc j" using nx True by simp
      have "sum_list out' = sum_list out + slope_integral R slope b - slope_integral ?low slope b"
        using s2 sm hr mx by simp
      then show ?thesis
        unfolding step r using l2 p by (intro exI [of _ s] exI [of _ out']) simp
    qed
  qed
qed


lemma counts_linear_offset:
  assumes "L < R" and "s = 0 \<or> 1 / 10 ^ 6 \<le> \<bar>s\<bar>"
  shows "\<exists>b. linear_offset s c L R = Inr b \<and>
     slope_integral R s b - slope_integral L s b = c"
proof (cases "s = 0")
  case True
  define b where "b = c / (R - L)"
  have "linear_offset s c L R = Inr b"
    using assms(1) True by (simp add: linear_offset_def b_def)
  moreover have "slope_integral R s b - slope_integral L s b = c"
  proof -
    have "b * (R - L) = c"
      using assms(1) by (simp add: b_def)
    then show ?thesis
      using True by (simp add: slope_integral_def algebra_simps)
  qed
  ultimately show ?thesis by blast
next
  case False
  then have big: "\<not> \<bar>s\<bar> < 1 / 10 ^ 6"
    using assms(2) by simp
  define b where "b = (c - s / 2 * (R\<^sup>2 - L\<^sup>2)) / (R - L)"
  have "linear_offset s c L R = Inr b"
    using assms(1) big unfolding linear_offset_def b_def by simp
  moreover have "slope_integral R s b - slope_integral L s b = c"
  proof -
    have "b * (R - L) = c - s / 2 * (R\<^sup>2 - L\<^sup>2)"
      using assms(1) by (simp add: b_def)
    then show ?thesis
      by (simp add: slope_integral_def algebra_simps)
  qed
  ultimately show ?thesis by blast
qed

lemma in_bins_loop_sum:
  fixes ov :: "real list"
  assumes se: "sorted_wrt (<) es" and le: "length es = Suc n" and lsp: "length sp = n"
    and lsl: "length sl = n" and so: "sorted ov"
    and ok: "\<forall>s \<in> set sl. s = 0 \<or> 1 / 10 ^ 6 \<le> \<bar>s\<bar>"
  shows "i \<le> n \<Longrightarrow> length out = length ov \<Longrightarrow> s < length ov \<Longrightarrow>
     (i < n \<longrightarrow> ov ! s \<le> es ! Suc i \<and> (Suc s < length ov \<longrightarrow> es ! i \<le> ov ! Suc s) \<and>
        (s = 0 \<or> ov ! s \<le> es ! i)) \<Longrightarrow>
     \<exists>st'. in_bins_loop sp es (map Finite ov @ [PosInf]) sl [int i .. int n - 1] (int s, out) =
            Inr st' \<and>
        length (snd st') = length ov \<and> sum_list (snd st') = sum_list out + sum_list (drop i sp)"
proof (induction "n - i" arbitrary: i s out)
  case 0
  then have "i = n" by simp
  then show ?case using lsp "0.prems"(2) by simp
next
  case (Suc d)
  let ?oe = "map Finite ov @ [PosInf]"
  have i: "i < n" using Suc.hyps(2) by simp
  have lo: "length out = length ov" and s: "s < length ov"
    using Suc.prems by simp_all
  have a: "ov ! s \<le> es ! Suc i" and b: "Suc s < length ov \<longrightarrow> es ! i \<le> ov ! Suc s"
    and c: "s = 0 \<or> ov ! s \<le> es ! i"
    using Suc.prems(4) i by simp_all
  have up: "[int i .. int n - 1] = int i # [int (Suc i) .. int n - 1]"
    using i by (rule upto_Cons_nat)
  have g1: "py_get es (int i) = Inr (es ! i)"
    using i le by (simp add: py_get_def py_pos_def)
  have g2: "py_get es (int i + 1) = Inr (es ! Suc i)"
    using i le by (simp add: py_get_def py_pos_def nat_add_distrib)
  have g3: "py_get sp (int i) = Inr (sp ! i)"
    using i lsp by (simp add: py_get_def py_pos_def)
  have g4: "py_get sl (int i) = Inr (sl ! i)"
    using i lsl by (simp add: py_get_def py_pos_def)
  have lr: "es ! i < es ! Suc i"
    using sorted_wrt_nth_less [OF se, of i "Suc i"] i le by simp
  have sk: "sl ! i = 0 \<or> 1 / 10 ^ 6 \<le> \<bar>sl ! i\<bar>"
    using ok i lsl by simp
  obtain off where off: "linear_offset (sl ! i) (sp ! i) (es ! i) (es ! Suc i) = Inr off"
    and area: "slope_integral (es ! Suc i) (sl ! i) off - slope_integral (es ! i) (sl ! i) off = sp ! i"
    using counts_linear_offset [OF lr sk, of "sp ! i"] by blast
  obtain s' out' where inner: "out_bins_loop ?oe (es ! i) (es ! Suc i) (sl ! i) off
        [int s .. int (length ov) - 1] (int s, out) = Inr (int s', out')"
    and l': "length out' = length ov"
    and sm: "sum_list out' = sum_list out + slope_integral (es ! Suc i) (sl ! i) off
           - slope_integral (if s = 0 then es ! i else max (es ! i) (ov ! s)) (sl ! i) off"
    and s': "s' < length ov" and a': "ov ! s' \<le> es ! Suc i"
    and b': "Suc s' < length ov \<longrightarrow> es ! Suc i < ov ! Suc s'"
    using out_bins_loop_sum [OF so s lo a b, of "sl ! i" off "int s"] by blast
  have low: "(if s = 0 then es ! i else max (es ! i) (ov ! s)) = es ! i"
    using c by auto
  have sm': "sum_list out' = sum_list out + sp ! i"
    using sm area unfolding low by simp
  have step: "in_bins_loop sp es ?oe sl [int i .. int n - 1] (int s, out) =
      in_bins_loop sp es ?oe sl [int (Suc i) .. int n - 1] (int s', out')"
    unfolding up in_bins_loop.simps g1 g2 g3 g4 bindE_Inr off lo inner ..
  have d: "d = n - Suc i" using Suc.hyps(2) by simp
  have i': "Suc i \<le> n" using i by simp
  have inv: "Suc i < n \<longrightarrow> ov ! s' \<le> es ! Suc (Suc i) \<and>
      (Suc s' < length ov \<longrightarrow> es ! Suc i \<le> ov ! Suc s') \<and> (s' = 0 \<or> ov ! s' \<le> es ! Suc i)"
  proof
    assume n: "Suc i < n"
    have "es ! Suc i < es ! Suc (Suc i)"
      using sorted_wrt_nth_less [OF se, of "Suc i" "Suc (Suc i)"] n le by simp
    then show "ov ! s' \<le> es ! Suc (Suc i) \<and>
      (Suc s' < length ov \<longrightarrow> es ! Suc i \<le> ov ! Suc s') \<and> (s' = 0 \<or> ov ! s' \<le> es ! Suc i)"
      using a' b' by auto
  qed
  obtain st' where r: "in_bins_loop sp es ?oe sl [int (Suc i) .. int n - 1] (int s', out') = Inr st'"
    and l2: "length (snd st') = length ov"
    and s2: "sum_list (snd st') = sum_list out' + sum_list (drop (Suc i) sp)"
    using Suc.hyps(1) [OF d i' l' s' inv] by blast
  have dr: "drop i sp = sp ! i # drop (Suc i) sp"
    using i lsp by (simp add: Cons_nth_drop_Suc)
  show ?case
    unfolding step r using l2 s2 sm' by (simp add: dr)
qed

lemma searchsorted_map:
  "searchsorted (map Finite es) (Finite v) = int (length (takeWhile (\<lambda>e. e < v) es))"
  by (simp add: searchsorted_def takeWhile_map comp_def)

lemma interpolation_vectorized_sum:
  fixes ov :: "real list"
  assumes se: "sorted_wrt (<) es" and le: "length es = Suc (length sp)"
    and lsl: "length sl = length sp" and so: "sorted ov" and ne: "ov \<noteq> []"
    and ok: "\<forall>s \<in> set sl. s = 0 \<or> 1 / 10 ^ 6 \<le> \<bar>s\<bar>"
    and sub: "hd es \<le> hd ov"
  shows "\<exists>out. rebin_interpolation_vectorized sp es ov sl = Inr out \<and>
     length out = length ov \<and> sum_list out = sum_list sp"
proof -
  let ?n = "length sp"
  let ?m = "length ov"
  let ?oe = "map Finite ov @ [PosInf]"
  have m: "0 < ?m" using ne by simp
  have o0: "hd ov = ov ! 0" using ne by (simp add: hd_conv_nth)
  have e0: "hd es = es ! 0" using le by (cases es) simp_all
  define k where "k = length (takeWhile (\<lambda>e. e < ov ! 0) es)"
  define i0 where "i0 = k - 1"
  define out1 where "out1 = (replicate ?m (0::real))[0 := sum_list (take i0 sp)]"
  have kle: "k \<le> Suc ?n"
    unfolding k_def using length_takeWhile_le [of "\<lambda>e. e < ov ! 0" es] le by simp
  have g0: "py_get ?oe 0 = Inr (Finite (ov ! 0))"
    using out_edges_get [OF m] by simp
  have idx: "max 0 (searchsorted (map Finite es) (Finite (ov ! 0)) - 1) = int i0"
    unfolding searchsorted_map k_def [symmetric] i0_def by (cases k) simp_all
  have ad: "py_add (replicate ?m 0) 0 (sum_list (take i0 sp)) = Inr out1"
    using py_add_nat [of 0 "replicate ?m (0::real)" "sum_list (take i0 sp)"] m
    by (simp add: out1_def)
  have ge: "py_get es 0 = Inr (es ! 0)"
    using le by (simp add: py_get_def py_pos_def)
  have oidx: "max 0 (searchsorted ?oe (Finite (es ! 0)) - 1) = int 0"
  proof -
    obtain x xs where ov: "ov = x # xs" using ne by (cases ov) auto
    have "\<not> x < es ! 0" using sub unfolding o0 e0 ov by simp
    then show ?thesis by (simp add: searchsorted_def ov)
  qed
  have l1: "length out1 = ?m" by (simp add: out1_def)
  have s1: "sum_list out1 = sum_list (take i0 sp)"
    using sum_list_update_add [of 0 "replicate ?m (0::real)" "sum_list (take i0 sp)"] m
    by (simp add: out1_def sum_list_replicate)
  have i0n: "i0 \<le> ?n" using kle by (simp add: i0_def)
  have inv: "i0 < ?n \<longrightarrow> ov ! 0 \<le> es ! Suc i0 \<and> (Suc 0 < ?m \<longrightarrow> es ! i0 \<le> ov ! Suc 0) \<and>
      (0 = (0::nat) \<or> ov ! 0 \<le> es ! i0)"
  proof
    assume lt: "i0 < ?n"
    have o1: "Suc 0 < ?m \<longrightarrow> ov ! 0 \<le> ov ! Suc 0"
      using sorted_nth_mono [OF so, of 0 "Suc 0"] by simp
    have "sp \<noteq> []" using lt by auto
    then have e1: "es ! 0 < es ! Suc 0"
      using sorted_wrt_nth_less [OF se, of 0 "Suc 0"] le by simp
    show "ov ! 0 \<le> es ! Suc i0 \<and> (Suc 0 < ?m \<longrightarrow> es ! i0 \<le> ov ! Suc 0) \<and>
      (0 = (0::nat) \<or> ov ! 0 \<le> es ! i0)"
    proof (cases k)
      case 0
      then have z: "i0 = 0" by (simp add: i0_def)
      have "k < length es" using 0 le by simp
      then have "\<not> es ! k < ov ! 0"
        unfolding k_def by (rule nth_length_takeWhile)
      then have "ov ! 0 \<le> es ! 0" using 0 by simp
      then show ?thesis
        using z sub o1 e1 unfolding o0 e0 by auto
    next
      case (Suc k')
      then have i0k: "i0 = k'" and kk: "k = Suc i0" by (simp_all add: i0_def)
      have "k < length es" using lt le kk by simp
      then have "\<not> es ! k < ov ! 0"
        unfolding k_def by (rule nth_length_takeWhile)
      then have p1: "ov ! 0 \<le> es ! Suc i0" unfolding kk by simp
      have il: "i0 < length (takeWhile (\<lambda>e. e < ov ! 0) es)"
        using kk unfolding k_def by simp
      have "takeWhile (\<lambda>e. e < ov ! 0) es ! i0 \<in> set (takeWhile (\<lambda>e. e < ov ! 0) es)"
        using il by (rule nth_mem)
      moreover have "takeWhile (\<lambda>e. e < ov ! 0) es ! i0 = es ! i0"
        using il by (rule takeWhile_nth)
      ultimately have "es ! i0 < ov ! 0"
        using set_takeWhileD [of "es ! i0" "\<lambda>e. e < ov ! 0" es] by simp
      then show ?thesis using p1 o1 by auto
    qed
  qed
  obtain st' where r: "in_bins_loop sp es ?oe sl [int i0 .. int ?n - 1] (int 0, out1) = Inr st'"
    and l2: "length (snd st') = ?m"
    and s2: "sum_list (snd st') = sum_list out1 + sum_list (drop i0 sp)"
    using in_bins_loop_sum [OF se le refl lsl so ok i0n l1 m inv] by blast
  have "sum_list (take i0 sp) + sum_list (drop i0 sp) = sum_list sp"
    using sum_list_append [of "take i0 sp" "drop i0 sp"] by simp
  then have s3: "sum_list (snd st') = sum_list sp"
    using s2 s1 by simp
  have "rebin_interpolation_vectorized sp es ov sl = Inr (snd st')"
    unfolding rebin_interpolation_vectorized_def Let_def g0 bindE_Inr idx
    using lsl r by (simp add: ad ge oidx)
  then show ?thesis using l2 s3 by blast
qed

text \<open>
  Claim C1: for the interpolation method the sum of the rebinned spectrum is the sum of
  the input spectrum when the output range lies inside the input range, for every array of
  slopes. The code does not keep this for a slope that is not zero but below the threshold
  \<open>10\<^sup>-\<^sup>6\<close> of \<^verbatim>\<open>_linear_offset\<close>: such a bin gets the offset of a flat density, while
  \<^verbatim>\<open>_counts\<close> still integrates the sloped line. The spectrum \<open>[100]\<close> over the edges
  \<open>[0, 2000]\<close> with the slope \<open>5 \<cdot> 10\<^sup>-\<^sup>7\<close> is rebinned onto \<open>[0, 1000, 2000]\<close> as
  \<open>[50.25, 50.75]\<close>, which sums to 101; with the slope \<open>10\<^sup>-\<^sup>6\<close>, on the other branch, and
  with the slope 0 the same call returns \<open>[49.5, 50.5]\<close> and \<open>[50, 50]\<close>, which sum to 100.
\<close>

theorem rebin_small_slope_not_conserved:
  "rebin (FloatSpectra (array1 [100])) (array1 [0, 2000]) (array1 [0, 1000, 2000])
     ''interpolation'' (Some (array1 [1 / 2000000])) True rng =
     ([], Inr (FloatSpectra (array1 [201 / 4, 203 / 4]))) \<and>
   sum_list [201 / 4, 203 / 4 :: real] = 101 \<and> sum_list [100 :: real] = 100 \<and>
   rebin (FloatSpectra (array1 [100])) (array1 [0, 2000]) (array1 [0, 1000, 2000])
     ''interpolation'' (Some (array1 [1 / 1000000])) True rng =
     ([], Inr (FloatSpectra (array1 [99 / 2, 101 / 2]))) \<and>
   rebin (FloatSpectra (array1 [100])) (array1 [0, 2000]) (array1 [0, 1000, 2000])
     ''interpolation'' (Some (array1 [0])) True rng =
     ([], Inr (FloatSpectra (array1 [50, 50])))"
  by code_simp

text \<open>
  Outside that branch the sum is conserved: for a spectrum of \<open>n\<close> bins with \<open>n + 1\<close>
  strictly increasing input edges, strictly increasing output edges (at least two) whose
  range lies inside the range of the input edges, and slopes that are absent or each either
  zero or at least \<open>10\<^sup>-\<^sup>6\<close> in absolute value, \<^verbatim>\<open>rebin\<close> returns without a warning one
  value for every output bin, and the sum of these values is the sum of the input spectrum.
\<close>

lemma rebin_interpolation_conserves:
  assumes m: "lower method = ''interpolation''"
    and se: "sorted_wrt (<) es" and le: "length es = length sp + 1"
    and so: "sorted_wrt (<) os" and l2: "2 \<le> length os"
    and sub1: "hd es \<le> hd os" and sub2: "last os \<le> last es"
    and sl: "slopes = None \<or>
       (\<exists>sl. slopes = Some (array1 sl) \<and> length sl = length sp \<and>
          (\<forall>s \<in> set sl. s = 0 \<or> 1 / 10 ^ 6 \<le> \<bar>s\<bar>))"
  shows "\<exists>out. rebin (FloatSpectra (array1 sp)) (array1 es) (array1 os) method slopes z rng =
       ([], Inr (FloatSpectra (array1 out))) \<and>
     length out = length os - 1 \<and> sum_list out = sum_list sp"
proof -
  define s where "s = (case slopes of None \<Rightarrow> zeros_like (FloatSpectra (array1 sp)) | Some a \<Rightarrow> a)"
  have sh: "shape s = [length sp]" and ls: "length (data s) = length sp"
    and ok: "\<forall>x \<in> set (data s). x = 0 \<or> 1 / 10 ^ 6 \<le> \<bar>x\<bar>"
    using sl by (auto simp: s_def zeros_like_def)
  have one: "os \<noteq> []" using l2 by auto
  have ho: "hd os < last os" using so l2 by (rule strict_hd_last)
  have ov1: "hd os < last es" using ho sub2 by simp
  have ov2: "hd es < last os" using ho sub1 by simp
  have ie: "increasing_row es" using se by (rule strictly_increasing_row)
  have io: "increasing_row os" using so by (rule strictly_increasing_row)
  have sb: "sorted (butlast os)"
    using so by (simp add: strict_sorted_imp_sorted sorted_butlast)
  have nb: "butlast os \<noteq> []"
    using l2 by (cases os rule: rev_cases) auto
  have hb: "hd (butlast os) = hd os"
    using nb by (cases os) auto
  have le': "length es = Suc (length sp)" using le by simp
  obtain out where k: "rebin_interpolation_vectorized sp es (butlast os) (data s) = Inr out"
    and lo: "length out = length (butlast os)" and sm: "sum_list out = sum_list sp"
    using interpolation_vectorized_sum [OF se le' ls sb nb ok] sub1 hb by auto
  have lo': "length out = length os - 1" using lo by simp
  have "rebin (FloatSpectra (array1 sp)) (array1 es) (array1 os) method slopes z rng =
      ([], Inr (FloatSpectra (array1 out)))"
    using sub1 sub2
    by (simp add: rebin_interpolation_rank1 [OF m le ie io one ov1 ov2 s_def sh k lo'])
  then show ?thesis using lo' sm by blast
qed

lemma rebin_interpolation_conserves_example:
  "lower ''interpolation'' = ''interpolation'' \<and> sorted_wrt (<) [0, 2000 :: real] \<and>
   sorted_wrt (<) [0, 1000, 2000 :: real] \<and> (1 / 10 ^ 6 :: real) \<le> \<bar>1 / 1000\<bar> \<and>
   (\<exists>out. rebin (FloatSpectra (array1 [100])) (array1 [0, 2000]) (array1 [0, 1000, 2000])
        ''interpolation'' (Some (array1 [1 / 1000])) True (sconst 0) =
        ([], Inr (FloatSpectra (array1 out))) \<and>
      length out = 2 \<and> sum_list out = 100)"
proof -
  have l: "lower ''interpolation'' = ''interpolation''"
    by code_simp
  have s: "Some (array1 [1 / 1000 :: real]) = None \<or>
       (\<exists>sl. Some (array1 [1 / 1000 :: real]) = Some (array1 sl) \<and> length sl = length [100 :: real] \<and>
          (\<forall>s \<in> set sl. s = 0 \<or> 1 / 10 ^ 6 \<le> \<bar>s\<bar>))"
    by (rule disjI2, rule exI [of _ "[1 / 1000]"]) simp
  have "\<exists>out. rebin (FloatSpectra (array1 [100])) (array1 [0, 2000]) (array1 [0, 1000, 2000])
        ''interpolation'' (Some (array1 [1 / 1000])) True (sconst 0) =
        ([], Inr (FloatSpectra (array1 out))) \<and>
      length out = length [0, 1000, 2000 :: real] - 1 \<and> sum_list out = sum_list [100]"
    by (rule rebin_interpolation_conserves [OF l _ _ _ _ _ _ s]) simp_all
  then show ?thesis
    using l by (simp add: numeral_2_eq_2)
qed

subsection \<open>Rebinning onto the same edges\<close>

lemma identity_out_bins_loop:
  assumes se: "sorted_wrt (<) es" and le: "length es = Suc n" and lo: "length out = n"
    and i: "i < n"
  shows "out_bins_loop (map Finite (butlast es) @ [PosInf]) (es ! i) (es ! Suc i) 0 b
           [int i .. int n - 1] (k, out) =
         Inr (int (if Suc i = n then i else Suc i),
              out[i := out ! i + b * (es ! Suc i - es ! i)])"
proof -
  let ?ov = "butlast es"
  let ?oe = "map Finite ?ov @ [PosInf]"
  let ?L = "es ! i"
  let ?R = "es ! Suc i"
  let ?out1 = "out[i := out ! i + b * (?R - ?L)]"
  have lov: "length ?ov = n" using le by simp
  have ovn: "\<And>j. j < n \<Longrightarrow> ?ov ! j = es ! j"
    using le by (simp add: nth_butlast)
  have lr: "?L < ?R"
    using sorted_wrt_nth_less [OF se, of i "Suc i"] i le by simp
  have up: "[int i .. int n - 1] = int i # [int (Suc i) .. int n - 1]"
    using i by (rule upto_Cons_nat)
  have g1: "py_get ?oe (int i) = Inr (Finite ?L)"
    using out_edges_get [of i ?ov] i lov ovn by simp
  have g2: "py_get ?oe (int i + 1) = Inr (if Suc i < n then Finite ?R else PosInf)"
    using out_edges_get_Suc [of i ?ov] i lov ovn by simp
  have nb: "\<not> f8_less (Finite ?R) (Finite ?L)"
    using lr by simp
  have lowv: "(if int i = 0 then Finite ?L else f8_max ?L (Finite ?L)) = Finite ?L"
    by simp
  have hi: "(if int i = int (length out) - 1 then Finite ?R
        else f8_min ?R (if Suc i < n then Finite ?R else PosInf)) = Finite ?R"
    by simp
  have cn: "counts 0 b ?L ?R = b * (?R - ?L)"
    by (simp add: counts_def slope_integral_def algebra_simps)
  have ad: "py_add out (int i) (counts 0 b ?L ?R) = Inr ?out1"
    unfolding cn using i lo by (intro py_add_nat) simp
  have step: "out_bins_loop ?oe ?L ?R 0 b [int i .. int n - 1] (k, out) =
      out_bins_loop ?oe ?L ?R 0 b [int (Suc i) .. int n - 1] (int i, ?out1)"
    unfolding up out_bins_loop.simps g1 g2 bindE_Inr
    by (simp only: nb if_False lowv hi finite_value.simps bindE_Inr ad)
  show ?thesis
  proof (cases "Suc i = n")
    case True
    then have "[int (Suc i) .. int n - 1] = []" by simp
    then show ?thesis unfolding step using True by simp
  next
    case False
    then have i1: "Suc i < n" using i by simp
    have l1: "length ?out1 = n" using lo by simp
    have up1: "[int (Suc i) .. int n - 1] = int (Suc i) # [int (Suc (Suc i)) .. int n - 1]"
      using i1 by (rule upto_Cons_nat)
    have h1: "py_get ?oe (int (Suc i)) = Inr (Finite ?R)"
      using out_edges_get [of "Suc i" ?ov] i1 lov ovn by simp
    have h2: "py_get ?oe (int (Suc i) + 1) =
        Inr (if Suc (Suc i) < n then Finite (es ! Suc (Suc i)) else PosInf)"
      using out_edges_get_Suc [of "Suc i" ?ov] i1 lov ovn by simp
    have nb1: "\<not> f8_less (Finite ?R) (Finite ?R)"
      by simp
    have lr1: "?R < es ! Suc (Suc i)"
      using sorted_wrt_nth_less [OF se, of "Suc i" "Suc (Suc i)"] i1 le by simp
    have lowv1: "(if int (Suc i) = 0 then Finite ?L else f8_max ?L (Finite ?R)) = Finite ?R"
      using lr by simp
    have hi1: "(if int (Suc i) = int (length ?out1) - 1 then Finite ?R
        else f8_min ?R (if Suc (Suc i) < n then Finite (es ! Suc (Suc i)) else PosInf)) = Finite ?R"
      using lr1 by simp
    have cn1: "counts 0 b ?R ?R = 0"
      by (simp add: counts_def)
    have same: "?out1[Suc i := ?out1 ! Suc i + 0] = ?out1"
      by (simp only: add_0_right list_update_id)
    have ad1: "py_add ?out1 (int (Suc i)) (counts 0 b ?R ?R) = Inr ?out1"
      unfolding cn1 using py_add_nat [of "Suc i" ?out1 0] i1 l1 by (simp only: same)
    have step1: "out_bins_loop ?oe ?L ?R 0 b [int (Suc i) .. int n - 1] (int i, ?out1) =
        out_bins_loop ?oe ?L ?R 0 b [int (Suc (Suc i)) .. int n - 1] (int (Suc i), ?out1)"
      unfolding up1 out_bins_loop.simps h1 h2 bindE_Inr
      by (simp only: nb1 if_False lowv1 hi1 finite_value.simps bindE_Inr ad1)
    show ?thesis
    proof (cases "Suc (Suc i) = n")
      case True
      then have "[int (Suc (Suc i)) .. int n - 1] = []" by simp
      then show ?thesis unfolding step step1 using False by simp
    next
      case nl: False
      then have i2: "Suc (Suc i) < n" using i1 by simp
      have up2: "[int (Suc (Suc i)) .. int n - 1] =
          int (Suc (Suc i)) # [int (Suc (Suc (Suc i))) .. int n - 1]"
        using i2 by (rule upto_Cons_nat)
      have k1: "py_get ?oe (int (Suc (Suc i))) = Inr (Finite (es ! Suc (Suc i)))"
        using out_edges_get [of "Suc (Suc i)" ?ov] i2 lov ovn by simp
      obtain x where k2: "py_get ?oe (int (Suc (Suc i)) + 1) = Inr x"
        using out_edges_get_Suc [of "Suc (Suc i)" ?ov] i2 lov by simp
      have bk: "f8_less (Finite ?R) (Finite (es ! Suc (Suc i)))"
        using lr1 by simp
      show ?thesis
        unfolding step step1 up2 out_bins_loop.simps k1 k2 bindE_Inr
        using bk False by simp
    qed
  qed
qed

lemma identity_update:
  fixes sp :: "real list"
  assumes "i < length sp"
  shows "(take i sp @ replicate (length sp - i) 0)[i := (take i sp @ replicate (length sp - i) 0) ! i + sp ! i]
     = take (Suc i) sp @ replicate (length sp - Suc i) 0"
proof -
  have r: "replicate (length sp - i) (0::real) = 0 # replicate (length sp - Suc i) 0"
    using assms by (metis Suc_diff_Suc replicate_Suc)
  show ?thesis
    using assms by (simp add: r list_update_append nth_append take_Suc_conv_app_nth)
qed

lemma identity_in_bins_loop:
  assumes se: "sorted_wrt (<) es" and le: "length es = Suc (length sp)"
  shows "i \<le> length sp \<Longrightarrow> (i < length sp \<longrightarrow> k = int i) \<Longrightarrow>
     \<exists>s. in_bins_loop sp es (map Finite (butlast es) @ [PosInf]) (replicate (length sp) 0)
            [int i .. int (length sp) - 1]
            (k, take i sp @ replicate (length sp - i) 0) = Inr (s, sp)"
proof (induction "length sp - i" arbitrary: i k)
  case 0
  then have "i = length sp" by simp
  then show ?case by simp
next
  case (Suc d)
  let ?n = "length sp"
  let ?oe = "map Finite (butlast es) @ [PosInf]"
  let ?out = "take i sp @ replicate (?n - i) 0"
  have i: "i < ?n" using Suc.hyps(2) by simp
  have k: "k = int i" using Suc.prems(2) i by simp
  have up: "[int i .. int ?n - 1] = int i # [int (Suc i) .. int ?n - 1]"
    using i by (rule upto_Cons_nat)
  have g1: "py_get es (int i) = Inr (es ! i)"
    using i le by (simp add: py_get_def py_pos_def)
  have g2: "py_get es (int i + 1) = Inr (es ! Suc i)"
    using i le by (simp add: py_get_def py_pos_def nat_add_distrib)
  have g3: "py_get sp (int i) = Inr (sp ! i)"
    using i by (simp add: py_get_def py_pos_def)
  have g4: "py_get (replicate ?n (0::real)) (int i) = Inr 0"
    using i by (simp add: py_get_def py_pos_def)
  have lr: "es ! i < es ! Suc i"
    using sorted_wrt_nth_less [OF se, of i "Suc i"] i le by simp
  have off: "linear_offset 0 (sp ! i) (es ! i) (es ! Suc i) = Inr (sp ! i / (es ! Suc i - es ! i))"
    using lr by (simp add: linear_offset_def)
  have lo: "length ?out = ?n" using i by simp
  have ar: "sp ! i / (es ! Suc i - es ! i) * (es ! Suc i - es ! i) = sp ! i"
    using lr by simp
  have inner: "out_bins_loop ?oe (es ! i) (es ! Suc i) 0 (sp ! i / (es ! Suc i - es ! i))
        [int i .. int (length ?out) - 1] (int i, ?out) =
      Inr (int (if Suc i = ?n then i else Suc i), take (Suc i) sp @ replicate (?n - Suc i) 0)"
    unfolding lo identity_out_bins_loop [OF se le lo i] ar
    using identity_update [OF i] by simp
  have step: "in_bins_loop sp es ?oe (replicate ?n 0) [int i .. int ?n - 1] (k, ?out) =
      in_bins_loop sp es ?oe (replicate ?n 0) [int (Suc i) .. int ?n - 1]
        (int (if Suc i = ?n then i else Suc i), take (Suc i) sp @ replicate (?n - Suc i) 0)"
    unfolding k up in_bins_loop.simps g1 g2 g3 g4 bindE_Inr off inner ..
  have d: "d = ?n - Suc i" using Suc.hyps(2) by simp
  have i': "Suc i \<le> ?n" using i by simp
  have k': "Suc i < ?n \<longrightarrow> int (if Suc i = ?n then i else Suc i) = int (Suc i)"
    by simp
  show ?case
    unfolding step using Suc.hyps(1) [OF d i' k'] .
qed

lemma identity_vectorized:
  assumes se: "sorted_wrt (<) es" and le: "length es = Suc (length sp)" and ne: "sp \<noteq> []"
  shows "rebin_interpolation_vectorized sp es (butlast es) (replicate (length sp) 0) = Inr sp"
proof -
  let ?n = "length sp"
  let ?oe = "map Finite (butlast es) @ [PosInf]"
  obtain e es' where es: "es = e # es'" using le by (cases es) auto
  have es': "es' \<noteq> []" using le ne es by auto
  have bl: "butlast es = e # butlast es'" using es es' by simp
  have g0: "py_get ?oe 0 = Inr (Finite e)"
    by (simp add: py_get_def py_pos_def bl)
  have idx: "max 0 (searchsorted (map Finite es) (Finite e) - 1) = 0"
    by (simp add: searchsorted_def es)
  have n: "0 < ?n" using ne by simp
  have ad: "py_add (replicate (length (butlast es)) 0) 0 (sum_list (take (nat 0) sp)) =
      Inr (replicate ?n 0)"
    using py_add_nat [of 0 "replicate ?n (0::real)" 0] n le
    by (simp add: list_update_same_conv)
  have ge: "py_get es 0 = Inr e"
    by (simp add: py_get_def py_pos_def es)
  have oidx: "max 0 (searchsorted ?oe (Finite e) - 1) = 0"
    by (simp add: searchsorted_def bl)
  obtain s where r: "in_bins_loop sp es ?oe (replicate ?n 0) [int 0 .. int ?n - 1]
            (0, take 0 sp @ replicate (?n - 0) 0) = Inr (s, sp)"
    using identity_in_bins_loop [OF se le, of 0 0] by auto
  show ?thesis
    unfolding rebin_interpolation_vectorized_def Let_def g0 bindE_Inr idx ad ge oidx
    using r by simp
qed

text \<open>
  Claim C2: for the interpolation method with the default slopes, rebinning a spectrum
  (of at least one bin) with strictly increasing input edges onto output edges identical to
  its input edges returns the spectrum itself, without a warning.
\<close>

theorem rebin_identity:
  assumes m: "lower method = ''interpolation''"
    and se: "sorted_wrt (<) es" and le: "length es = length sp + 1" and ne: "sp \<noteq> []"
  shows "rebin (FloatSpectra (array1 sp)) (array1 es) (array1 es) method None z rng =
     ([], Inr (FloatSpectra (array1 sp)))"
proof -
  define s where "s = (case (None :: real ndarray option) of
      None \<Rightarrow> zeros_like (FloatSpectra (array1 sp)) | Some a \<Rightarrow> a)"
  have sh: "shape s = [length sp]" and ds: "data s = replicate (length sp) 0"
    by (simp_all add: s_def zeros_like_def)
  have l2: "2 \<le> length es" using le ne by (cases sp) auto
  have one: "es \<noteq> []" using le by auto
  have ho: "hd es < last es" using se l2 by (rule strict_hd_last)
  have ie: "increasing_row es" using se by (rule strictly_increasing_row)
  have le': "length es = Suc (length sp)" using le by simp
  have k: "rebin_interpolation_vectorized sp es (butlast es) (data s) = Inr sp"
    unfolding ds using se le' ne by (rule identity_vectorized)
  have lo: "length sp = length es - 1" using le by simp
  show ?thesis
    by (simp add: rebin_interpolation_rank1 [OF m le ie ie one ho ho s_def sh k lo])
qed

theorem rebin_identity_witness:
  "lower ''interpolation'' = ''interpolation'' \<and> sorted_wrt (<) [0, 1, 3, 7 :: real] \<and>
   rebin (FloatSpectra (array1 [5, 0, 2])) (array1 [0, 1, 3, 7]) (array1 [0, 1, 3, 7])
     ''interpolation'' None True (sconst 0) = ([], Inr (FloatSpectra (array1 [5, 0, 2])))"
proof -
  have l: "lower ''interpolation'' = ''interpolation''"
    by code_simp
  have "rebin (FloatSpectra (array1 [5, 0, 2])) (array1 [0, 1, 3, 7]) (array1 [0, 1, 3, 7])
     ''interpolation'' None True (sconst 0) = ([], Inr (FloatSpectra (array1 [5, 0, 2])))"
    by (rule rebin_identity [OF l]) simp_all
  then show ?thesis
    using l by simp
qed

subsection \<open>Batches of spectra\<close>










































end
